theory Spec2Isabelle
  imports Complex_Main "HOL-Library.AList" "HOL-Library.Char_ord" "HOL-Library.List_Lexorder"
begin

section \<open>Conventions of the embedding\<close>

text \<open>
  The Astra toolchain is written in Python. A Python \<open>dict\<close> keeps its keys in insertion
  order, and several passes depend on that order (the formatter, the order of reported
  issues), so a dictionary is an association list: \<open>map_of\<close> is the lookup,
  \<open>AList.update\<close> is \<open>d[k] = v\<close> (in place for an existing key, appended for a new one) and
  \<open>AList.delete\<close> is \<open>d.pop(k, None)\<close>. Python strings are \<open>string\<close>s, except in the text
  index, which counts code points and UTF-16 units and therefore works on code point lists.
  Every exception of the source is a value of type \<open>error\<close>; the free text of a message is
  kept only where it is a fixed literal.
\<close>

datatype error =
    PatchError string
  | ValueError
  | KeyError
  | IndexError
  | TypeError
  | SandboxError string
  | AssertionError
  | UnicodeEncodeError
  | BuiltinFault string
  | AttributeError
  | RecursionError
  | OverflowError

section \<open>Type checker: the type algebra (typecheck.py)\<close>

datatype ty =
    AnyType
  | Prim string
  | Var string
  | ListT ty
  | RecordT "(string \<times> ty) list"

type_synonym Subst = "(string \<times> ty) list"

text \<open>
  \<open>_apply\<close> follows the bindings of a substitution and does not terminate on a cyclic one.
  The first argument bounds the number of bindings followed along one path; \<open>None\<close> is
  Python's unbounded recursion.
\<close>

fun ty_apply :: "nat \<Rightarrow> ty \<Rightarrow> Subst \<Rightarrow> ty option"
  and ty_apply_fields :: "nat \<Rightarrow> (string \<times> ty) list \<Rightarrow> Subst \<Rightarrow> (string \<times> ty) list option"
where
  "ty_apply n (Var x) s =
     (case map_of s x of
        None \<Rightarrow> Some (Var x)
      | Some t \<Rightarrow> (case n of 0 \<Rightarrow> None | Suc m \<Rightarrow> ty_apply m t s))"
| "ty_apply n (ListT e) s = map_option ListT (ty_apply n e s)"
| "ty_apply n (RecordT fs) s = map_option RecordT (ty_apply_fields n fs s)"
| "ty_apply n AnyType s = Some AnyType"
| "ty_apply n (Prim p) s = Some (Prim p)"
| "ty_apply_fields n [] s = Some []"
| "ty_apply_fields n ((k, v) # fs) s =
     (case ty_apply n v s of
        None \<Rightarrow> None
      | Some v' \<Rightarrow> map_option ((#) (k, v')) (ty_apply_fields n fs s))"

text \<open>
  \<open>_occurs\<close> and \<open>unify\<close> recurse on types they have first passed through \<open>_apply\<close>, so
  their recursion is bounded by a depth as well: the body of each is a definition over
  the function \<open>rec\<close> that stands for the recursive call, and the function itself is the
  body iterated.
\<close>

primrec occurs_fields_with ::
  "(string \<Rightarrow> ty \<Rightarrow> Subst \<Rightarrow> bool option) \<Rightarrow> string \<Rightarrow> (string \<times> ty) list \<Rightarrow> Subst \<Rightarrow> bool option"
where
  "occurs_fields_with rec var [] s = Some False"
| "occurs_fields_with rec var (f # fs) s =
     (case rec var (snd f) s of
        None \<Rightarrow> None
      | Some b \<Rightarrow> if b then Some True else occurs_fields_with rec var fs s)"

definition occurs_body ::
  "(string \<Rightarrow> ty \<Rightarrow> Subst \<Rightarrow> bool option) \<Rightarrow> nat \<Rightarrow> string \<Rightarrow> ty \<Rightarrow> Subst \<Rightarrow> bool option"
where
  "occurs_body rec n var t s =
     (case ty_apply n t s of
        None \<Rightarrow> None
      | Some (Var y) \<Rightarrow> Some (y = var)
      | Some (ListT e) \<Rightarrow> rec var e s
      | Some (RecordT fs) \<Rightarrow> occurs_fields_with rec var fs s
      | Some _ \<Rightarrow> Some False)"

primrec occurs :: "nat \<Rightarrow> string \<Rightarrow> ty \<Rightarrow> Subst \<Rightarrow> bool option" where
  "occurs 0 var t s = None"
| "occurs (Suc n) var t s = occurs_body (occurs n) n var t s"

definition num_join :: "string \<Rightarrow> string \<Rightarrow> string option" where
  "num_join a b =
     (if a = b then Some a
      else if {a, b} = {''Int'', ''Float''} then Some ''Float''
      else None)"

text \<open>
  \<open>unify expected actual subst\<close> mutates \<open>subst\<close>: the model returns the verdict together
  with the substitution as the call leaves it (a failed unification keeps the bindings
  made before the failure).
\<close>

primrec unify_fields_with ::
  "(ty \<Rightarrow> ty \<Rightarrow> Subst \<Rightarrow> (bool \<times> Subst) option) \<Rightarrow> (string \<times> ty) list \<Rightarrow> (string \<times> ty) list \<Rightarrow>
     Subst \<Rightarrow> (bool \<times> Subst) option"
where
  "unify_fields_with rec [] afs subst = Some (True, subst)"
| "unify_fields_with rec (f # efs) afs subst =
     (case map_of afs (fst f) of
        None \<Rightarrow> Some (False, subst)
      | Some tact \<Rightarrow>
         (case rec (snd f) tact subst of
            None \<Rightarrow> None
          | Some r \<Rightarrow>
              if fst r then unify_fields_with rec efs afs (snd r) else Some (False, snd r)))"

definition unify_var ::
  "(bool \<times> Subst) option \<Rightarrow> nat \<Rightarrow> string \<Rightarrow> ty \<Rightarrow> Subst \<Rightarrow> (bool \<times> Subst) option"
where
  "unify_var bound n x other subst =
     (if map_of subst x \<noteq> None then bound
      else (case occurs n x other subst of
              None \<Rightarrow> None
            | Some b \<Rightarrow> if b then Some (True, subst) else Some (True, AList.update x other subst)))"

definition unify_body ::
  "(ty \<Rightarrow> ty \<Rightarrow> Subst \<Rightarrow> (bool \<times> Subst) option) \<Rightarrow> nat \<Rightarrow> ty \<Rightarrow> ty \<Rightarrow> Subst \<Rightarrow> (bool \<times> Subst) option"
where
  "unify_body rec n expected0 actual0 subst =
     (case ty_apply n expected0 subst of
        None \<Rightarrow> None
      | Some expected \<Rightarrow>
     (case ty_apply n actual0 subst of
        None \<Rightarrow> None
      | Some actual \<Rightarrow>
        if expected = AnyType then Some (True, subst)
        else if actual = AnyType then Some (True, subst)
        else (case expected of
          Var x \<Rightarrow> unify_var (rec (the (map_of subst x)) actual subst) n x actual subst
        | _ \<Rightarrow>
         (case actual of
          Var y \<Rightarrow> unify_var (rec expected (the (map_of subst y)) subst) n y expected subst
        | _ \<Rightarrow>
         (case expected of
            Prim a \<Rightarrow>
              (case actual of
                 Prim b \<Rightarrow>
                   if a = b then Some (True, subst)
                   else Some (num_join a b \<noteq> None \<and> num_join a b = Some a, subst)
               | _ \<Rightarrow> Some (False, subst))
          | ListT e \<Rightarrow>
              (case actual of ListT a \<Rightarrow> rec e a subst | _ \<Rightarrow> Some (False, subst))
          | RecordT efs \<Rightarrow>
              (case actual of
                 RecordT afs \<Rightarrow> unify_fields_with rec efs afs subst
               | _ \<Rightarrow> Some (False, subst))
          | _ \<Rightarrow> Some (False, subst))))))"

primrec unify :: "nat \<Rightarrow> ty \<Rightarrow> ty \<Rightarrow> Subst \<Rightarrow> (bool \<times> Subst) option" where
  "unify 0 expected actual subst = None"
| "unify (Suc n) expected actual subst = unify_body (unify n) n expected actual subst"

lemma size_map_of_fields:
  "k \<in> fst ` set fs \<Longrightarrow> size (the (map_of fs k)) < Suc (size_list (size_prod (\<lambda>x. 0) size) fs)"
proof (induction fs)
  case Nil
  then show ?case by simp
next
  case (Cons p fs)
  show ?case
  proof (cases "fst p = k")
    case True
    then show ?thesis by (cases p) simp
  next
    case False
    with Cons.prems have "k \<in> fst ` set fs" by auto
    then have "size (the (map_of fs k)) < Suc (size_list (size_prod (\<lambda>x. 0) size) fs)"
      by (rule Cons.IH)
    with False show ?thesis by (cases p) simp
  qed
qed

text \<open>
  The public \<open>join\<close>, used to merge the types of branches. The fields of a joined record
  are the common keys in sorted order. The result of \<open>_num_join\<close> is tested for truth, so
  the empty name counts as no join.
\<close>

function join :: "ty \<Rightarrow> ty \<Rightarrow> ty" where
  "join t1 t2 =
     (if t1 = AnyType \<or> t2 = AnyType then AnyType
      else (case (t1, t2) of
          (Prim a, Prim b) \<Rightarrow>
            (case num_join a b of Some j \<Rightarrow> if j = [] then AnyType else Prim j | None \<Rightarrow> AnyType)
        | (ListT a, ListT b) \<Rightarrow> ListT (join a b)
        | (RecordT fs1, RecordT fs2) \<Rightarrow>
            RecordT (map (\<lambda>k. (k, join (the (map_of fs1 k)) (the (map_of fs2 k))))
              (sort (remdups (filter (\<lambda>k. k \<in> fst ` set fs2) (map fst fs1)))))
        | (Var x, _) \<Rightarrow> t2
        | (_, Var y) \<Rightarrow> t1
        | _ \<Rightarrow> AnyType))"
  by pat_completeness auto
termination
proof (relation "measure (\<lambda>(a, b). size a + size b)", goal_cases)
  case 1
  show ?case by simp
next
  case (2 t1 t2 x y a b)
  then show ?case by auto
next
  case (3 t1 t2 x y fs1 fs2 k)
  then have "k \<in> fst ` set fs1" "k \<in> fst ` set fs2" by auto
  then have "size (the (map_of fs1 k)) < Suc (size_list (size_prod (\<lambda>x. 0) size) fs1)"
    "size (the (map_of fs2 k)) < Suc (size_list (size_prod (\<lambda>x. 0) size) fs2)"
    by (simp_all add: size_map_of_fields)
  with 3 show ?case by auto
qed

declare join.simps [simp del]

text \<open>
  The checker's own \<open>_join\<close>, used by inference. It first calls \<open>_apply\<close> with the empty
  substitution on both types, which returns them unchanged (\<open>ty_apply_empty\<close> below), so
  the model starts after that call.
\<close>

function infer_join :: "ty \<Rightarrow> ty \<Rightarrow> ty" where
  "infer_join a b =
     (if a = AnyType \<or> b = AnyType then AnyType
      else (case (a, b) of
          (Prim x, Prim y) \<Rightarrow>
            (if x = y then a
             else if {x, y} = {''Int'', ''Float''} then Prim ''Float''
             else AnyType)
        | (ListT x, ListT y) \<Rightarrow> ListT (infer_join x y)
        | (RecordT fs1, RecordT fs2) \<Rightarrow>
            RecordT (map (\<lambda>k. (k, infer_join (the (map_of fs1 k)) (the (map_of fs2 k))))
              (sort (remdups (filter (\<lambda>k. k \<in> fst ` set fs2) (map fst fs1)))))
        | (Var x, Var y) \<Rightarrow> (if x = y then a else AnyType)
        | _ \<Rightarrow> AnyType))"
  by pat_completeness auto
termination
proof (relation "measure (\<lambda>(a, b). size a + size b)", goal_cases)
  case 1
  show ?case by simp
next
  case (2 t1 t2 x y a b)
  then show ?case by auto
next
  case (3 t1 t2 x y fs1 fs2 k)
  then have "k \<in> fst ` set fs1" "k \<in> fst ` set fs2" by auto
  then have "size (the (map_of fs1 k)) < Suc (size_list (size_prod (\<lambda>x. 0) size) fs1)"
    "size (the (map_of fs2 k)) < Suc (size_list (size_prod (\<lambda>x. 0) size) fs2)"
    by (simp_all add: size_map_of_fields)
  with 3 show ?case by auto
qed

declare infer_join.simps [simp del]

lemma ty_apply_empty:
  "ty_apply n t [] = Some t" "ty_apply_fields n fs [] = Some fs"
  by (induction n t "[] :: Subst" and n fs "[] :: Subst" rule: ty_apply_ty_apply_fields.induct) auto

section \<open>JSON values\<close>

text \<open>
  The value tree of a module, a patch or an interpreter value. Python's \<open>bool\<close>, \<open>int\<close>
  and \<open>float\<close> stay apart (\<open>JBool\<close>, \<open>JInt\<close>, \<open>JFloat\<close>); an object keeps the order of its
  members. A Python \<open>dict\<close> never holds a key twice: \<open>wf_json\<close> says so of every object of
  a value.
\<close>

datatype json =
    JNull
  | JBool bool
  | JInt int
  | JFloat real
  | JStr string
  | JList "json list"
  | JDict "(string \<times> json) list"

fun wf_json :: "json \<Rightarrow> bool" where
  "wf_json (JList xs) = list_all wf_json xs"
| "wf_json (JDict d) = (distinct (map fst d) \<and> list_all (\<lambda>kv. wf_json (snd kv)) d)"
| "wf_json v = True"

definition dict_get :: "(string \<times> json) list \<Rightarrow> string \<Rightarrow> json" where
  \<comment> \<open>\<open>d.get(k)\<close>: \<open>None\<close> for a missing key\<close>
  "dict_get d k = (case map_of d k of None \<Rightarrow> JNull | Some v \<Rightarrow> v)"

subsection \<open>Strings and decimal numerals\<close>

definition digit_chars :: string where
  "digit_chars = ''0123456789''"

fun str_of_nat :: "nat \<Rightarrow> string" where
  "str_of_nat n =
     (if n < 10 then [digit_chars ! n] else str_of_nat (n div 10) @ [digit_chars ! (n mod 10)])"

declare str_of_nat.simps [simp del]

definition digit_val :: "char \<Rightarrow> nat" where
  "digit_val c = length (takeWhile (\<lambda>d. d \<noteq> c) digit_chars)"

definition nat_of_str :: "string \<Rightarrow> nat" where
  "nat_of_str s = foldl (\<lambda>acc c. 10 * acc + digit_val c) 0 s"

text \<open>
  \<open>str.isdigit\<close> also accepts the superscript digits (code points 178, 179 and 185), on
  which \<open>int\<close> raises \<open>ValueError\<close>.
\<close>

definition superscript_digits :: string where
  "superscript_digits = [char_of (178::nat), char_of (179::nat), char_of (185::nat)]"

definition isdigit :: "string \<Rightarrow> bool" where
  "isdigit s = (s \<noteq> [] \<and> list_all (\<lambda>c. c \<in> set digit_chars \<or> c \<in> set superscript_digits) s)"

definition py_int :: "string \<Rightarrow> error + nat" where
  "py_int s =
     (if s \<noteq> [] \<and> list_all (\<lambda>c. c \<in> set digit_chars) s then Inr (nat_of_str s) else Inl ValueError)"

primrec split_on :: "char \<Rightarrow> string \<Rightarrow> string list" where
  "split_on c [] = [[]]"
| "split_on c (x # xs) =
     (if x = c then [] # split_on c xs
      else (case split_on c xs of [] \<Rightarrow> [[x]] | w # ws \<Rightarrow> (x # w) # ws))"

definition replace_char :: "char \<Rightarrow> string \<Rightarrow> string \<Rightarrow> string" where
  "replace_char c new s = concat (map (\<lambda>x. if x = c then new else [x]) s)"

fun replace_pair :: "char \<Rightarrow> char \<Rightarrow> string \<Rightarrow> string \<Rightarrow> string" where
  "replace_pair a b new (x # y # rest) =
     (if x = a \<and> y = b then new @ replace_pair a b new rest
      else x # replace_pair a b new (y # rest))"
| "replace_pair a b new xs = xs"

section \<open>JSON Pointer and JSON Patch (pointer.py)\<close>

definition escape_segment :: "string \<Rightarrow> string" where
  "escape_segment seg = replace_char (CHR ''/'') ''~1'' (replace_char (CHR ''~'') ''~0'' seg)"

definition unescape_segment :: "string \<Rightarrow> string" where
  "unescape_segment seg =
     replace_pair (CHR ''~'') (CHR ''0'') ''~'' (replace_pair (CHR ''~'') (CHR ''1'') ''/'' seg)"

definition split_pointer :: "string \<Rightarrow> error + string list" where
  "split_pointer pointer =
     (if pointer = [] \<or> pointer = ''/'' then Inr []
      else if hd pointer \<noteq> CHR ''/'' then Inl ValueError
      else Inr (map unescape_segment (split_on (CHR ''/'') (dropWhile (\<lambda>c. c = CHR ''/'') pointer))))"

primrec join_with :: "string \<Rightarrow> string list \<Rightarrow> string" where
  "join_with sep [] = []"
| "join_with sep (x # xs) = (if xs = [] then x else x @ sep @ join_with sep xs)"

definition join_pointer :: "string list \<Rightarrow> string" where
  "join_pointer segments =
     (if segments = [] then [] else ''/'' @ join_with ''/'' (map escape_segment segments))"

datatype key = KStr string | KInt nat

definition coerce_index :: "string \<Rightarrow> json \<Rightarrow> error + key" where
  "coerce_index seg cur =
     (case cur of
        JList xs \<Rightarrow>
          if seg \<noteq> ''-'' \<and> isdigit seg
          then (case py_int seg of Inl e \<Rightarrow> Inl e | Inr i \<Rightarrow> Inr (KInt i))
          else Inr (KStr seg)
      | _ \<Rightarrow> Inr (KStr seg))"

fun resolve_segs :: "json \<Rightarrow> string list \<Rightarrow> error + json" where
  "resolve_segs cur [] = Inr cur"
| "resolve_segs cur (raw # rest) =
     (case coerce_index raw cur of
        Inl e \<Rightarrow> Inl e
      | Inr seg \<Rightarrow>
         (case cur of
            JList xs \<Rightarrow>
              (case seg of
                 KStr k \<Rightarrow> Inl KeyError
               | KInt i \<Rightarrow> if i < length xs then resolve_segs (xs ! i) rest else Inl IndexError)
          | JDict d \<Rightarrow>
              (case seg of
                 KInt i \<Rightarrow> Inl KeyError
               | KStr k \<Rightarrow>
                  (case map_of d k of None \<Rightarrow> Inl KeyError | Some v \<Rightarrow> resolve_segs v rest))
          | _ \<Rightarrow> Inl KeyError))"

definition resolve :: "json \<Rightarrow> string \<Rightarrow> error + json" where
  "resolve doc pointer =
     (case split_pointer pointer of Inl e \<Rightarrow> Inl e | Inr segs \<Rightarrow> resolve_segs doc segs)"

definition resolve_parent :: "json \<Rightarrow> string \<Rightarrow> error + (json \<times> key)" where
  "resolve_parent doc pointer =
     (case split_pointer pointer of
        Inl e \<Rightarrow> Inl e
      | Inr segs \<Rightarrow>
          if segs = [] then Inl ValueError
          else (case resolve doc (join_pointer (butlast segs)) of
                  Inl e \<Rightarrow> Inl e
                | Inr parent \<Rightarrow>
                   (case coerce_index (last segs) parent of
                      Inl e \<Rightarrow> Inl e
                    | Inr k \<Rightarrow> Inr (parent, k))))"

text \<open>
  \<open>apply_patch\<close> mutates the container that \<open>_resolve_parent\<close> returns. The document is a
  tree, so the mutation is the rebuilding of the spine that leads to that container:
  \<open>modify_segs f\<close> walks the segments as \<open>resolve\<close> does and puts \<open>f parent\<close> in the place
  of the parent (\<open>modify_segs_resolve_error\<close>, \<open>modify_segs_fail\<close> and \<open>modify_segs_ok\<close> below: it
  fails exactly where \<open>resolve\<close> or \<open>f\<close> fails). A document that shares one container between two places is outside the model.
\<close>

fun modify_segs :: "(json \<Rightarrow> error + json) \<Rightarrow> json \<Rightarrow> string list \<Rightarrow> error + json" where
  "modify_segs f cur [] = f cur"
| "modify_segs f cur (raw # rest) =
     (case coerce_index raw cur of
        Inl e \<Rightarrow> Inl e
      | Inr seg \<Rightarrow>
         (case cur of
            JList xs \<Rightarrow>
              (case seg of
                 KStr k \<Rightarrow> Inl KeyError
               | KInt i \<Rightarrow>
                  if i < length xs
                  then (case modify_segs f (xs ! i) rest of
                          Inl e \<Rightarrow> Inl e
                        | Inr v \<Rightarrow> Inr (JList (xs[i := v])))
                  else Inl IndexError)
          | JDict d \<Rightarrow>
              (case seg of
                 KInt i \<Rightarrow> Inl KeyError
               | KStr k \<Rightarrow>
                  (case map_of d k of
                     None \<Rightarrow> Inl KeyError
                   | Some v \<Rightarrow>
                      (case modify_segs f v rest of
                         Inl e \<Rightarrow> Inl e
                       | Inr v' \<Rightarrow> Inr (JDict (AList.update k v' d)))))
          | _ \<Rightarrow> Inl KeyError))"

definition mutate_parent :: "json \<Rightarrow> string \<Rightarrow> (json \<Rightarrow> key \<Rightarrow> error + json) \<Rightarrow> error + json" where
  "mutate_parent doc pointer f =
     (case split_pointer pointer of
        Inl e \<Rightarrow> Inl e
      | Inr segs \<Rightarrow>
          if segs = [] then Inl ValueError
          else (case split_pointer (join_pointer (butlast segs)) of
                  Inl e \<Rightarrow> Inl e
                | Inr psegs \<Rightarrow>
                    modify_segs
                      (\<lambda>parent. case coerce_index (last segs) parent of
                                   Inl e \<Rightarrow> Inl e
                                 | Inr k \<Rightarrow> f parent k)
                      doc psegs))"

definition remove_child :: "json \<Rightarrow> key \<Rightarrow> error + json" where
  "remove_child parent k =
     (case parent of
        JList xs \<Rightarrow>
          (case k of
             KStr s \<Rightarrow> Inl (PatchError ''Invalid list index for remove'')
           | KInt i \<Rightarrow>
               if 2 ^ 63 \<le> i then Inl OverflowError
               else if i < length xs then Inr (JList (take i xs @ drop (Suc i) xs))
               else Inl IndexError)
      | JDict d \<Rightarrow>
          (case k of
             KInt i \<Rightarrow> Inl (PatchError ''Invalid object key for remove'')
           | KStr s \<Rightarrow> Inr (JDict (AList.delete s d)))
      | _ \<Rightarrow> Inl (PatchError ''Parent is not container''))"

text \<open>
  \<open>list.insert(i, v)\<close> does not check the range: an index past the end appends, which is
  what \<open>take i xs @ v # drop i xs\<close> gives. \<open>parent[i] = v\<close> raises \<open>IndexError\<close> past the
  end. \<open>insert\<close> and \<open>pop\<close> convert the index to a machine integer first and raise
  \<open>OverflowError\<close> from \<open>2^63\<close> on (a 64-bit CPython is assumed).
\<close>

definition set_child :: "string \<Rightarrow> json \<Rightarrow> json \<Rightarrow> key \<Rightarrow> error + json" where
  "set_child kind val parent k =
     (case parent of
        JList xs \<Rightarrow>
          (case k of
             KStr s \<Rightarrow>
               if s = ''-'' then Inr (JList (xs @ [val])) else Inl (PatchError ''Invalid list index'')
           | KInt i \<Rightarrow>
               if kind = ''add''
               then (if 2 ^ 63 \<le> i then Inl OverflowError
                     else Inr (JList (take i xs @ val # drop i xs)))
               else if i < length xs then Inr (JList (xs[i := val]))
               else Inl IndexError)
      | JDict d \<Rightarrow>
          (case k of
             KInt i \<Rightarrow> Inl (PatchError ''Invalid object key'')
           | KStr s \<Rightarrow> Inr (JDict (AList.update s val d)))
      | _ \<Rightarrow> Inl (PatchError ''Parent is not container''))"

definition apply_op :: "json \<Rightarrow> json \<Rightarrow> error + json" where
  "apply_op doc op =
     (case op of
        JDict ob \<Rightarrow>
          (case dict_get ob ''op'' of
             JStr kind \<Rightarrow>
               if kind \<noteq> ''add'' \<and> kind \<noteq> ''replace'' \<and> kind \<noteq> ''remove''
               then Inl (PatchError ''Unsupported patch op'')
               else (case dict_get ob ''path'' of
                  JStr path \<Rightarrow>
                    if kind = ''remove'' then mutate_parent doc path remove_child
                    else (case map_of ob ''value'' of
                       None \<Rightarrow> Inl (PatchError ''Patch op missing value'')
                     | Some val \<Rightarrow>
                         if path = [] \<or> path = ''/'' then Inr val
                         else mutate_parent doc path (set_child kind val))
                | _ \<Rightarrow> Inl (PatchError ''Patch op missing string path''))
           | _ \<Rightarrow> Inl (PatchError ''Unsupported patch op''))
      | _ \<Rightarrow> Inl (PatchError ''Patch operation must be an object''))"

primrec apply_patch :: "json \<Rightarrow> json list \<Rightarrow> error + json" where
  "apply_patch doc [] = Inr doc"
| "apply_patch doc (op # patch) =
     (case apply_op doc op of Inl e \<Rightarrow> Inl e | Inr doc' \<Rightarrow> apply_patch doc' patch)"

lemma modify_segs_resolve_error:
  "resolve_segs doc segs = Inl e \<Longrightarrow> modify_segs f doc segs = Inl e"
  by (induction segs arbitrary: doc)
     (auto split: sum.splits json.splits key.splits option.splits if_splits)

lemma modify_segs_fail:
  "resolve_segs doc segs = Inr p \<Longrightarrow> f p = Inl e \<Longrightarrow> modify_segs f doc segs = Inl e"
  by (induction segs arbitrary: doc)
     (auto split: sum.splits json.splits key.splits option.splits if_splits)

lemma modify_segs_ok:
  assumes "resolve_segs doc segs = Inr p" and "f p = Inr p'"
  shows "\<exists>d. modify_segs f doc segs = Inr d"
proof -
  from assms have "\<not> isl (modify_segs f doc segs)"
    by (induction segs arbitrary: doc)
       (fastforce split: sum.splits json.splits key.splits option.splits if_splits)+
  then show ?thesis by (cases "modify_segs f doc segs") auto
qed

lemma mutate_parent_fail:
  assumes "resolve_parent doc path = Inr (parent, k)" and "f parent k = Inl e"
  shows "mutate_parent doc path f = Inl e"
proof -
  from assms(1) obtain segs psegs where
    segs: "split_pointer path = Inr segs" "segs \<noteq> []"
    and psegs: "split_pointer (join_pointer (butlast segs)) = Inr psegs"
    and par: "resolve_segs doc psegs = Inr parent"
    and k: "coerce_index (last segs) parent = Inr k"
    by (auto simp: resolve_parent_def resolve_def split: sum.splits if_splits)
  from k assms(2)
  have "(\<lambda>q. case coerce_index (last segs) q of Inl e \<Rightarrow> Inl e | Inr k \<Rightarrow> f q k) parent = Inl e"
    by simp
  with par have "modify_segs (\<lambda>q. case coerce_index (last segs) q of Inl e \<Rightarrow> Inl e | Inr k \<Rightarrow> f q k)
      doc psegs = Inl e"
    by (rule modify_segs_fail)
  with segs psegs show ?thesis by (simp add: mutate_parent_def)
qed

lemma mutate_parent_ok:
  assumes "resolve_parent doc path = Inr (parent, k)" and "f parent k = Inr parent'"
  shows "\<exists>d. mutate_parent doc path f = Inr d"
proof -
  from assms(1) obtain segs psegs where
    segs: "split_pointer path = Inr segs" "segs \<noteq> []"
    and psegs: "split_pointer (join_pointer (butlast segs)) = Inr psegs"
    and par: "resolve_segs doc psegs = Inr parent"
    and k: "coerce_index (last segs) parent = Inr k"
    by (auto simp: resolve_parent_def resolve_def split: sum.splits if_splits)
  from k assms(2)
  have "(\<lambda>q. case coerce_index (last segs) q of Inl e \<Rightarrow> Inl e | Inr k \<Rightarrow> f q k) parent = Inr parent'"
    by simp
  with par have "\<exists>d. modify_segs (\<lambda>q. case coerce_index (last segs) q of Inl e \<Rightarrow> Inl e | Inr k \<Rightarrow> f q k)
      doc psegs = Inr d"
    by (rule modify_segs_ok)
  with segs psegs show ?thesis by (simp add: mutate_parent_def)
qed

lemma resolve_parent_not_root:
  "resolve_parent doc path = Inr r \<Longrightarrow> path \<noteq> [] \<and> path \<noteq> ''/''"
  by (auto simp: resolve_parent_def split_pointer_def)

section \<open>Out-of-range list indices in a patch (C4)\<close>

text \<open>
  What the three operations do with a numeric index outside the list that the path leads
  to. \<open>replace\<close> and \<open>remove\<close> raise for every index from the length on (\<open>IndexError\<close>;
  \<open>remove\<close> raises \<open>OverflowError\<close> from \<open>2^63\<close> on); \<open>add\<close> raises for no index below
  \<open>2^63\<close>: \<open>list.insert\<close> clamps, so an index past the length appends.
\<close>

lemma replace_out_of_range_raises:
  assumes "resolve_parent doc path = Inr (JList xs, KInt i)" and "length xs \<le> i"
  shows "apply_patch doc [JDict [(''op'', JStr ''replace''), (''path'', JStr path), (''value'', v)]]
         = Inl IndexError"
proof -
  from assms(2) have "set_child ''replace'' v (JList xs) (KInt i) = Inl IndexError"
    by (simp add: set_child_def)
  with assms(1) have "mutate_parent doc path (set_child ''replace'' v) = Inl IndexError"
    by (rule mutate_parent_fail)
  with resolve_parent_not_root [OF assms(1)] show ?thesis
    by (simp add: apply_op_def dict_get_def)
qed

lemma remove_out_of_range_raises:
  assumes "resolve_parent doc path = Inr (JList xs, KInt i)" and "length xs \<le> i"
  shows "apply_patch doc [JDict [(''op'', JStr ''remove''), (''path'', JStr path)]]
         = Inl (if 2 ^ 63 \<le> i then OverflowError else IndexError)"
proof -
  from assms(2)
  have "remove_child (JList xs) (KInt i) = Inl (if 2 ^ 63 \<le> i then OverflowError else IndexError)"
    by (simp add: remove_child_def)
  with assms(1)
  have "mutate_parent doc path remove_child = Inl (if 2 ^ 63 \<le> i then OverflowError else IndexError)"
    by (rule mutate_parent_fail)
  then show ?thesis
    by (simp add: apply_op_def dict_get_def)
qed

lemma add_any_index_succeeds:
  assumes "resolve_parent doc path = Inr (JList xs, KInt i)" and "i < 2 ^ 63"
  shows "\<exists>d. apply_patch doc [JDict [(''op'', JStr ''add''), (''path'', JStr path), (''value'', v)]]
         = Inr d"
proof -
  from assms(2)
  have "set_child ''add'' v (JList xs) (KInt i) = Inr (JList (take i xs @ v # drop i xs))"
    by (simp add: set_child_def)
  with assms(1) have "\<exists>d. mutate_parent doc path (set_child ''add'' v) = Inr d"
    by (rule mutate_parent_ok)
  with resolve_parent_not_root [OF assms(1)] show ?thesis
    by (auto simp: apply_op_def dict_get_def)
qed

lemmas pointer_eval =
  apply_op_def dict_get_def mutate_parent_def resolve_parent_def resolve_def split_pointer_def
  unescape_segment_def join_pointer_def escape_segment_def replace_char_def coerce_index_def
  isdigit_def py_int_def digit_chars_def superscript_digits_def nat_of_str_def digit_val_def
  set_child_def remove_child_def

text \<open>
  C4. The claim is that an \<open>add\<close> with a numeric index greater than the length of the list
  raises. On the document \<open>{"xs": [1, 2]}\<close> the patch
  \<open>[{"op": "add", "path": "/xs/5", "value": 9}]\<close> is applied without an error and returns
  \<open>{"xs": [1, 2, 9]}\<close>: the value has been appended.
\<close>

theorem add_past_end_appends:
  "apply_patch (JDict [(''xs'', JList [JInt 1, JInt 2])])
     [JDict [(''op'', JStr ''add''), (''path'', JStr ''/xs/5''), (''value'', JInt 9)]]
   = Inr (JDict [(''xs'', JList [JInt 1, JInt 2, JInt 9])])"
  by (simp add: pointer_eval)

section \<open>Canonical formatter (fmt.py)\<close>

definition MODULE_KEY_ORDER :: "string list" where
  "MODULE_KEY_ORDER = [''module'', ''version'', ''imports'', ''externs'', ''functions'', ''tests'',
     ''properties'', ''metadata'']"

definition FUNCTION_KEY_ORDER :: "string list" where
  "FUNCTION_KEY_ORDER = [''name'', ''doc'', ''type_params'', ''params'', ''param_types'', ''returns'',
     ''effects'', ''requires'', ''ensures'', ''body'', ''tests'', ''properties'']"

definition TEST_KEY_ORDER :: "string list" where
  "TEST_KEY_ORDER = [''name'', ''fn'', ''args'', ''expect'']"

definition PROPERTY_KEY_ORDER :: "string list" where
  "PROPERTY_KEY_ORDER = [''name'', ''fn'', ''strategy'', ''expect'']"

definition IF_KEY_ORDER :: "string list" where
  "IF_KEY_ORDER = [''cond'', ''then'', ''else'']"

definition LET_KEY_ORDER :: "string list" where
  "LET_KEY_ORDER = [''name'', ''expr'']"

definition ASSERT_KEY_ORDER :: "string list" where
  "ASSERT_KEY_ORDER = [''expr'', ''message'']"

definition CALL_KEY_ORDER :: "string list" where
  "CALL_KEY_ORDER = [''fn'', ''args'']"

text \<open>
  \<open>_ordered_dict(obj, preferred)\<close> inserts into a fresh dictionary the preferred keys that
  \<open>obj\<close> has, in the order of \<open>preferred\<close>, and then the keys not yet inserted, sorted. The
  model lists the keys in that order of insertion; no list of preferred keys in the source
  holds a key twice.
\<close>

definition ordered_dict :: "(string \<times> json) list \<Rightarrow> string list \<Rightarrow> (string \<times> json) list" where
  "ordered_dict obj preferred =
     map (\<lambda>k. (k, the (map_of obj k)))
       (filter (\<lambda>k. k \<in> set (map fst obj)) preferred
        @ sort (filter (\<lambda>k. k \<notin> set preferred) (map fst obj)))"

definition drop_none :: "(string \<times> json) list \<Rightarrow> (string \<times> json) list" where
  "drop_none ms = filter (\<lambda>kv. snd kv \<noteq> JNull) ms"

lemma map_of_member: "(k, v) \<in> set obj \<Longrightarrow> (k, the (map_of obj k)) \<in> set obj"
  by (induction obj) auto

lemma ordered_dict_subset: "set (ordered_dict obj preferred) \<subseteq> set obj"
  by (auto simp: ordered_dict_def dest: map_of_member)

text \<open>The heuristics of \<open>canonicalize\<close>, as predicates on the set of keys of an object.\<close>

definition is_module :: "string set \<Rightarrow> bool" where
  "is_module K = (''module'' \<in> K \<and> ''functions'' \<in> K)"

definition is_function :: "string set \<Rightarrow> bool" where
  "is_function K = (set [''name'', ''params'', ''effects'', ''body''] \<subseteq> K)"

definition is_test :: "string set \<Rightarrow> bool" where
  "is_test K = (''fn'' \<in> K \<and> ''args'' \<in> K \<and> ''expect'' \<in> K \<and> ''strategy'' \<notin> K)"

definition is_property :: "string set \<Rightarrow> bool" where
  "is_property K = (''fn'' \<in> K \<and> ''strategy'' \<in> K \<and> ''expect'' \<in> K)"

definition statement_tags :: "string list" where
  "statement_tags = [''if'', ''let'', ''return'', ''assert'', ''expr'']"

definition expression_tags :: "string list" where
  "expression_tags = [''call'', ''var'', ''list'', ''obj'']"

definition members :: "json \<Rightarrow> (string \<times> json) list" where
  "members v = (case v of JDict d \<Rightarrow> d | _ \<Rightarrow> [])"

definition is_dict :: "json \<Rightarrow> bool" where
  "is_dict v = (case v of JDict d \<Rightarrow> True | _ \<Rightarrow> False)"

lemma size_elem: "x \<in> set xs \<Longrightarrow> size x < Suc (size_list size xs)"
  by (induction xs) auto

lemma size_member: "x \<in> set d \<Longrightarrow> size (snd x) < Suc (size_list (size_prod (\<lambda>x. 0) size) d)"
  by (induction d) auto

lemma size_ordered_dict:
  "x \<in> set (ordered_dict d p) \<Longrightarrow> size (snd x) < Suc (size_list (size_prod (\<lambda>x. 0) size) d)"
  using ordered_dict_subset [of d p] by (auto intro: size_member)

lemma size_drop_none:
  "x \<in> set (drop_none (ordered_dict d p)) \<Longrightarrow> size (snd x) < Suc (size_list (size_prod (\<lambda>x. 0) size) d)"
  by (auto simp: drop_none_def intro: size_ordered_dict)

lemma size_map_of:
  "k \<in> fst ` set d \<Longrightarrow> size (the (map_of d k)) < Suc (size_list (size_prod (\<lambda>x. 0) size) d)"
  using size_member [of "(k, the (map_of d k))" d] by (auto dest: map_of_member)

lemma size_members: "size_list (size_prod (\<lambda>x. 0) size) (members v) \<le> size v"
  by (cases v) (simp_all add: members_def)

lemma size_hd:
  "length node = Suc 0 \<Longrightarrow> size (snd (hd node)) < Suc (size_list (size_prod (\<lambda>x. 0) size) node)"
  by (cases node) auto

lemma size_hd_drop_none:
  assumes "length node = Suc 0" and "x \<in> set (drop_none (ordered_dict (members (snd (hd node))) p))"
  shows "size (snd x) < Suc (size_list (size_prod (\<lambda>x. 0) size) node)"
proof -
  from assms(2) have "size (snd x) < Suc (size_list (size_prod (\<lambda>x. 0) size) (members (snd (hd node))))"
    by (rule size_drop_none)
  also have "\<dots> \<le> Suc (size (snd (hd node)))" by (simp add: size_members)
  also from assms(1) have "\<dots> \<le> Suc (size_list (size_prod (\<lambda>x. 0) size) node)"
    using size_hd [of node] by simp
  finally show ?thesis .
qed

lemma size_hd_map_of:
  assumes "length node = Suc 0" and "k \<in> fst ` set (members (snd (hd node)))"
  shows "size (the (map_of (members (snd (hd node))) k)) < Suc (size_list (size_prod (\<lambda>x. 0) size) node)"
proof -
  from assms(2)
  have "size (the (map_of (members (snd (hd node))) k))
        < Suc (size_list (size_prod (\<lambda>x. 0) size) (members (snd (hd node))))"
    by (rule size_map_of)
  also have "\<dots> \<le> Suc (size (snd (hd node)))" by (simp add: size_members)
  also from assms(1) have "\<dots> \<le> Suc (size_list (size_prod (\<lambda>x. 0) size) node)"
    using size_hd [of node] by simp
  finally show ?thesis .
qed

text \<open>
  \<open>canonicalize\<close>. A comprehension \<open>{k: canonicalize(v) for k, v in obj.items() if v is not
  None}\<close> is \<open>drop_none\<close> followed by the map over the members.
\<close>

function (sequential) canonicalize :: "json \<Rightarrow> json" where
  "canonicalize (JList xs) = JList (map canonicalize xs)"
| "canonicalize (JDict node) =
     (if is_module (set (map fst node))
      then JDict (map (\<lambda>kv. (fst kv, canonicalize (snd kv))) (ordered_dict node MODULE_KEY_ORDER))
      else if is_function (set (map fst node))
      then JDict (map (\<lambda>kv. (fst kv, canonicalize (snd kv))) (drop_none (ordered_dict node FUNCTION_KEY_ORDER)))
      else if is_test (set (map fst node))
      then JDict (map (\<lambda>kv. (fst kv, canonicalize (snd kv))) (drop_none (ordered_dict node TEST_KEY_ORDER)))
      else if is_property (set (map fst node))
      then JDict (map (\<lambda>kv. (fst kv, canonicalize (snd kv))) (drop_none (ordered_dict node PROPERTY_KEY_ORDER)))
      else if length node = 1 \<and> fst (hd node) \<in> set statement_tags
      then (if fst (hd node) = ''if'' \<and> is_dict (snd (hd node))
            then JDict [(''if'', JDict (map (\<lambda>kv. (fst kv, canonicalize (snd kv)))
                   (drop_none (ordered_dict (members (snd (hd node))) IF_KEY_ORDER))))]
            else if fst (hd node) = ''let'' \<and> is_dict (snd (hd node))
            then JDict [(''let'', JDict (map (\<lambda>kv. (fst kv, canonicalize (snd kv)))
                   (drop_none (ordered_dict (members (snd (hd node))) LET_KEY_ORDER))))]
            else if fst (hd node) = ''assert'' \<and> is_dict (snd (hd node))
            then JDict [(''assert'', JDict (map (\<lambda>kv. (fst kv, canonicalize (snd kv)))
                   (drop_none (ordered_dict (members (snd (hd node))) ASSERT_KEY_ORDER))))]
            else JDict [(fst (hd node), canonicalize (snd (hd node)))])
      else if length node = 1 \<and> fst (hd node) \<in> set expression_tags
      then (if fst (hd node) = ''call'' \<and> is_dict (snd (hd node))
            then JDict [(''call'', JDict (map (\<lambda>kv. (fst kv, canonicalize (snd kv)))
                   (drop_none (ordered_dict (members (snd (hd node))) CALL_KEY_ORDER))))]
            else if fst (hd node) = ''obj'' \<and> is_dict (snd (hd node))
            then JDict [(''obj'', JDict (map (\<lambda>k. (k, canonicalize (the (map_of (members (snd (hd node))) k))))
                   (sort (map fst (members (snd (hd node)))))))]
            else JDict [(fst (hd node), canonicalize (snd (hd node)))])
      else JDict (map (\<lambda>kv. (fst kv, canonicalize (snd kv))) (ordered_dict node [])))"
| "canonicalize v = v"
  by pat_completeness auto
termination
  by (relation "measure size")
     (simp_all add: size_elem size_ordered_dict size_drop_none size_hd size_hd_drop_none
        size_hd_map_of)

declare canonicalize.simps [simp del]

abbreviation canon_items :: "(string \<times> json) list \<Rightarrow> (string \<times> json) list" where
  "canon_items ms \<equiv> map (\<lambda>kv. (fst kv, canonicalize (snd kv))) ms"

lemma ordered_dict_keys:
  "map fst (ordered_dict d p)
   = filter (\<lambda>k. k \<in> set (map fst d)) p @ sort (filter (\<lambda>k. k \<notin> set p) (map fst d))"
  by (simp add: ordered_dict_def comp_def)

lemma distinct_ordered_dict:
  "distinct p \<Longrightarrow> distinct (map fst d) \<Longrightarrow> distinct (map fst (ordered_dict d p))"
  by (auto simp: ordered_dict_keys)

lemma map_of_self:
  "distinct (map fst xs) \<Longrightarrow> map (\<lambda>k. (k, the (map_of xs k))) (map fst xs) = xs"
proof (induction xs)
  case Nil
  show ?case by simp
next
  case (Cons x xs)
  then have "map (\<lambda>k. (k, the (map_of (x # xs) k))) (map fst xs)
           = map (\<lambda>k. (k, the (map_of xs k))) (map fst xs)"
    by (intro map_cong) (auto simp: image_iff)
  with Cons.IH Cons.prems show ?case by (cases x) simp
qed

lemma ordered_dict_fixed:
  assumes "distinct (map fst out)" and keys: "map fst out = filter R p @ B"
    and "set B \<inter> set p = {}" and "sorted B"
  shows "ordered_dict out p = out"
proof -
  have 1: "filter (\<lambda>k. k \<in> set (map fst out)) p = filter R p"
    using assms(3) by (intro filter_cong) (auto simp: keys)
  have "filter (\<lambda>k. k \<notin> set p) (map fst out) = B"
    using assms(3) by (auto simp: keys filter_empty_conv filter_id_conv)
  with assms(4) have 2: "sort (filter (\<lambda>k. k \<notin> set p) (map fst out)) = B"
    by (simp add: sort_key_id_if_sorted)
  have "ordered_dict out p = map (\<lambda>k. (k, the (map_of out k))) (map fst out)"
    unfolding ordered_dict_def 1 2 by (simp only: keys)
  with map_of_self [OF assms(1)] show ?thesis by simp
qed

lemma ordered_dict_filter_fixed:
  assumes "distinct p" "distinct (map fst d)"
  shows "ordered_dict (map (\<lambda>kv. (fst kv, f (snd kv))) (filter Q (ordered_dict d p))) p
         = map (\<lambda>kv. (fst kv, f (snd kv))) (filter Q (ordered_dict d p))"
proof (rule ordered_dict_fixed)
  let ?g = "\<lambda>k. (k, the (map_of d k))"
  let ?out = "map (\<lambda>kv. (fst kv, f (snd kv))) (filter Q (ordered_dict d p))"
  have k: "map fst ?out = filter (\<lambda>k. Q (?g k)) (map fst (ordered_dict d p))"
    by (simp add: ordered_dict_def filter_map comp_def)
  from assms show "distinct (map fst ?out)"
    unfolding k by (intro distinct_filter distinct_ordered_dict)
  show "map fst ?out = filter (\<lambda>k. k \<in> set (map fst d) \<and> Q (?g k)) p
          @ filter (\<lambda>k. Q (?g k)) (sort (filter (\<lambda>k. k \<notin> set p) (map fst d)))"
    unfolding k by (simp add: ordered_dict_keys conj_commute)
  show "set (filter (\<lambda>k. Q (?g k)) (sort (filter (\<lambda>k. k \<notin> set p) (map fst d)))) \<inter> set p = {}"
    by auto
  show "sorted (filter (\<lambda>k. Q (?g k)) (sort (filter (\<lambda>k. k \<notin> set p) (map fst d))))"
    using sorted_filter [of "\<lambda>k. k" "sort (filter (\<lambda>k. k \<notin> set p) (map fst d))" "\<lambda>k. Q (?g k)"]
    by simp
qed


lemma canonicalize_is_dict: "is_dict (canonicalize v) = is_dict v"
  by (cases v) (simp_all add: canonicalize.simps is_dict_def)

lemma canonicalize_eq_JNull: "canonicalize v = JNull \<longleftrightarrow> v = JNull"
  by (cases v) (simp_all add: canonicalize.simps)

lemma drop_none_canon_items:
  "drop_none (canon_items (drop_none xs)) = canon_items (drop_none xs)"
  by (induction xs) (simp_all add: drop_none_def canonicalize_eq_JNull)

lemma keys_ordered_dict: "set (map fst (ordered_dict d p)) = set (map fst d)"
  by (auto simp: ordered_dict_keys)

lemma keys_dropped:
  "set (map fst (canon_items (drop_none (ordered_dict d p))))
   = {k \<in> set (map fst d). map_of d k \<noteq> Some JNull}"
proof -
  have 1: "map fst (canon_items (drop_none (ordered_dict d p)))
      = filter (\<lambda>k. the (map_of d k) \<noteq> JNull) (map fst (ordered_dict d p))"
    by (simp add: ordered_dict_def drop_none_def filter_map comp_def)
  have 2: "(the (map_of d k) \<noteq> JNull) = (map_of d k \<noteq> Some JNull)" if "k \<in> set (map fst d)" for k
  proof -
    from that obtain v where "map_of d k = Some v"
      by (cases "map_of d k") (auto simp: map_of_eq_None_iff)
    then show ?thesis by simp
  qed
  have "set (filter (\<lambda>k. the (map_of d k) \<noteq> JNull) (map fst (ordered_dict d p)))
      = {k \<in> set (map fst d). the (map_of d k) \<noteq> JNull}"
    using keys_ordered_dict [of d p] by auto
  also have "\<dots> = {k \<in> set (map fst d). map_of d k \<noteq> Some JNull}"
    using 2 by blast
  finally show ?thesis unfolding 1 .
qed

lemma canon_items_idem:
  assumes "\<And>kv. kv \<in> set xs \<Longrightarrow> canonicalize (canonicalize (snd kv)) = canonicalize (snd kv)"
  shows "canon_items (canon_items xs) = canon_items xs"
  using assms by (induction xs) simp_all

lemma branch_idem_drop:
  assumes "distinct p" "distinct (map fst d)"
    and IH: "\<And>kv. kv \<in> set d \<Longrightarrow> canonicalize (canonicalize (snd kv)) = canonicalize (snd kv)"
  shows "canon_items (drop_none (ordered_dict (canon_items (drop_none (ordered_dict d p))) p))
         = canon_items (drop_none (ordered_dict d p))"
proof -
  have "ordered_dict (canon_items (drop_none (ordered_dict d p))) p
        = canon_items (drop_none (ordered_dict d p))"
    unfolding drop_none_def using assms(1,2) by (rule ordered_dict_filter_fixed)
  moreover have "canon_items (canon_items (drop_none (ordered_dict d p)))
        = canon_items (drop_none (ordered_dict d p))"
    using ordered_dict_subset [of d p] by (intro canon_items_idem IH) (auto simp: drop_none_def)
  ultimately show ?thesis by (simp add: drop_none_canon_items)
qed

lemma branch_idem:
  assumes "distinct p" "distinct (map fst d)"
    and IH: "\<And>kv. kv \<in> set d \<Longrightarrow> canonicalize (canonicalize (snd kv)) = canonicalize (snd kv)"
  shows "canon_items (ordered_dict (canon_items (ordered_dict d p)) p)
         = canon_items (ordered_dict d p)"
proof -
  have "ordered_dict (canon_items (filter (\<lambda>kv. True) (ordered_dict d p))) p
        = canon_items (filter (\<lambda>kv. True) (ordered_dict d p))"
    using assms(1,2) by (rule ordered_dict_filter_fixed)
  moreover have "canon_items (canon_items (ordered_dict d p)) = canon_items (ordered_dict d p)"
    using ordered_dict_subset [of d p] by (intro canon_items_idem IH) auto
  ultimately show ?thesis by simp
qed


subsection \<open>Idempotence\<close>

text \<open>
  The function, test-case and property heuristics drop the members whose value is
  \<open>null\<close>. \<open>trigger_keys_not_null\<close> says that no object of a value loses, in this way, one of
  the keys that made its heuristic match: in an object that matches the function heuristic
  the values under \<open>name\<close>, \<open>params\<close>, \<open>effects\<close> and \<open>body\<close> are not \<open>null\<close>, and likewise
  \<open>fn\<close>, \<open>args\<close>, \<open>expect\<close> for a test case and \<open>fn\<close>, \<open>strategy\<close>, \<open>expect\<close> for a property.
\<close>

definition node_ok :: "(string \<times> json) list \<Rightarrow> bool" where
  "node_ok node =
     (if is_module (set (map fst node)) then True
      else if is_function (set (map fst node))
      then list_all (\<lambda>k. map_of node k \<noteq> Some JNull) [''name'', ''params'', ''effects'', ''body'']
      else if is_test (set (map fst node))
      then list_all (\<lambda>k. map_of node k \<noteq> Some JNull) [''fn'', ''args'', ''expect'']
      else if is_property (set (map fst node))
      then list_all (\<lambda>k. map_of node k \<noteq> Some JNull) [''fn'', ''strategy'', ''expect'']
      else True)"

fun trigger_keys_not_null :: "json \<Rightarrow> bool" where
  "trigger_keys_not_null (JList xs) = list_all trigger_keys_not_null xs"
| "trigger_keys_not_null (JDict d) = (node_ok d \<and> list_all (\<lambda>kv. trigger_keys_not_null (snd kv)) d)"
| "trigger_keys_not_null v = True"

lemma distinct_key_orders:
  "distinct MODULE_KEY_ORDER" "distinct FUNCTION_KEY_ORDER" "distinct TEST_KEY_ORDER"
  "distinct PROPERTY_KEY_ORDER" "distinct IF_KEY_ORDER" "distinct LET_KEY_ORDER"
  "distinct ASSERT_KEY_ORDER" "distinct CALL_KEY_ORDER"
  by (simp_all add: MODULE_KEY_ORDER_def FUNCTION_KEY_ORDER_def TEST_KEY_ORDER_def
      PROPERTY_KEY_ORDER_def IF_KEY_ORDER_def LET_KEY_ORDER_def ASSERT_KEY_ORDER_def
      CALL_KEY_ORDER_def)

lemma heuristics_subset:
  "K' \<subseteq> K \<Longrightarrow> \<not> is_module K \<Longrightarrow> \<not> is_module K'"
  "K' \<subseteq> K \<Longrightarrow> \<not> is_function K \<Longrightarrow> \<not> is_function K'"
  by (auto simp: is_module_def is_function_def)

lemma heuristics_single:
  "\<not> is_module {k}" "\<not> is_function {k}" "\<not> is_test {k}" "\<not> is_property {k}"
  by (auto simp: is_module_def is_function_def is_test_def is_property_def)

lemma ordered_dict_single: "ordered_dict [(k, v)] [] = [(k, v)]"
  by (simp add: ordered_dict_def)

lemma length_ordered_dict_Nil: "length (ordered_dict d []) = length d"
  by (simp add: ordered_dict_def)

lemma obj_idem:
  assumes d: "distinct (map fst inner)"
    and IH: "\<And>kv. kv \<in> set inner \<Longrightarrow> canonicalize (canonicalize (snd kv)) = canonicalize (snd kv)"
  shows "map (\<lambda>k. (k, canonicalize (the (map_of
            (map (\<lambda>k. (k, canonicalize (the (map_of inner k)))) (sort (map fst inner))) k))))
           (sort (map fst (map (\<lambda>k. (k, canonicalize (the (map_of inner k)))) (sort (map fst inner)))))
         = map (\<lambda>k. (k, canonicalize (the (map_of inner k)))) (sort (map fst inner))"
proof -
  let ?ks = "sort (map fst inner)"
  let ?out = "map (\<lambda>k. (k, canonicalize (the (map_of inner k)))) ?ks"
  have ks: "map fst ?out = ?ks" by (simp add: comp_def)
  have "sort ?ks = ?ks" by (simp add: sorted_sort_id)
  moreover have "canonicalize (the (map_of ?out k)) = canonicalize (the (map_of inner k))"
    if "k \<in> set ?ks" for k
  proof -
    from that have "k \<in> set (map fst inner)" by simp
    then have m: "(k, the (map_of inner k)) \<in> set inner"
      by (auto dest: map_of_member)
    from that have "map_of ?out k = Some (canonicalize (the (map_of inner k)))"
      by (simp add: map_of_map_restrict)
    with IH [OF m] show ?thesis by simp
  qed
  ultimately show ?thesis unfolding ks by (simp cong: map_cong)
qed


lemma keys_canon_items: "set (map fst (canon_items xs)) = set (map fst xs)"
  by (simp add: comp_def)

lemma canon_single:
  "canonicalize (JDict [(tag, val)]) =
     (if is_dict val \<and> tag = ''if''
      then JDict [(''if'', JDict (canon_items (drop_none (ordered_dict (members val) IF_KEY_ORDER))))]
      else if is_dict val \<and> tag = ''let''
      then JDict [(''let'', JDict (canon_items (drop_none (ordered_dict (members val) LET_KEY_ORDER))))]
      else if is_dict val \<and> tag = ''assert''
      then JDict [(''assert'', JDict (canon_items (drop_none (ordered_dict (members val) ASSERT_KEY_ORDER))))]
      else if is_dict val \<and> tag = ''call''
      then JDict [(''call'', JDict (canon_items (drop_none (ordered_dict (members val) CALL_KEY_ORDER))))]
      else if is_dict val \<and> tag = ''obj''
      then JDict [(''obj'', JDict (map (\<lambda>k. (k, canonicalize (the (map_of (members val) k))))
                   (sort (map fst (members val)))))]
      else JDict [(tag, canonicalize val)])"
proof -
  consider "tag = ''if''" | "tag = ''let''" | "tag = ''assert''" | "tag = ''call''" | "tag = ''obj''"
    | "tag = ''return''" | "tag = ''expr''" | "tag = ''var''" | "tag = ''list''"
    | "tag \<notin> set statement_tags" "tag \<notin> set expression_tags"
    by (auto simp: statement_tags_def expression_tags_def)
  then show ?thesis
  proof cases
    case 10
    then have "tag \<noteq> ''if''" "tag \<noteq> ''let''" "tag \<noteq> ''assert''" "tag \<noteq> ''call''" "tag \<noteq> ''obj''"
      by (auto simp: statement_tags_def expression_tags_def)
    with 10 show ?thesis
      by (simp add: canonicalize.simps(2) heuristics_single ordered_dict_single)
  qed (simp_all add: canonicalize.simps(2) heuristics_single statement_tags_def expression_tags_def)
qed


lemma idem_module:
  assumes dn: "distinct (map fst node)"
    and IH: "\<And>kv. kv \<in> set node \<Longrightarrow> canonicalize (canonicalize (snd kv)) = canonicalize (snd kv)"
    and a: "is_module (set (map fst node))"
  shows "canonicalize (canonicalize (JDict node)) = canonicalize (JDict node)"
proof -
  let ?out = "canon_items (ordered_dict node MODULE_KEY_ORDER)"
  from a have 1: "canonicalize (JDict node) = JDict ?out"
    by (simp add: canonicalize.simps(2))
  from a have "is_module (set (map fst ?out))"
    unfolding keys_canon_items keys_ordered_dict .
  then have "canonicalize (JDict ?out) = JDict (canon_items (ordered_dict ?out MODULE_KEY_ORDER))"
    by (simp add: canonicalize.simps(2))
  with branch_idem [OF distinct_key_orders(1) dn IH] show ?thesis by (simp add: 1)
qed


lemma idem_function:
  assumes dn: "distinct (map fst node)"
    and IH: "\<And>kv. kv \<in> set node \<Longrightarrow> canonicalize (canonicalize (snd kv)) = canonicalize (snd kv)"
    and ok: "node_ok node"
    and b: "\<not> is_module (set (map fst node))"
      "is_function (set (map fst node))"
  shows "canonicalize (canonicalize (JDict node)) = canonicalize (JDict node)"
proof -
  let ?K = "set (map fst node)"
  let ?out = "canon_items (drop_none (ordered_dict node FUNCTION_KEY_ORDER))"
  let ?K' = "set (map fst ?out)"
  from b have 1: "canonicalize (JDict node) = JDict ?out"
    by (simp add: canonicalize.simps(2))
  have K': "?K' = {k \<in> ?K. map_of node k \<noteq> Some JNull}" by (rule keys_dropped)
  have sub: "?K' \<subseteq> ?K" unfolding K' by blast
  from ok b have nn: "list_all (\<lambda>k. map_of node k \<noteq> Some JNull) [''name'', ''params'', ''effects'', ''body'']"
    by (simp add: node_ok_def)
  have 2: "\<not> is_module ?K'" using sub b(1) by (rule heuristics_subset(1))
  have "set [''name'', ''params'', ''effects'', ''body''] \<subseteq> {k \<in> ?K. map_of node k \<noteq> Some JNull}"
    using b(2) nn by (simp add: is_function_def)
  then have 3: "is_function ?K'" unfolding K' is_function_def .
  from 2 3 have "canonicalize (JDict ?out)
      = JDict (canon_items (drop_none (ordered_dict ?out FUNCTION_KEY_ORDER)))"
    by (simp only: canonicalize.simps(2) if_True if_False)
  with branch_idem_drop [OF distinct_key_orders(2) dn IH] show ?thesis by (simp only: 1)
qed

lemma idem_test:
  assumes dn: "distinct (map fst node)"
    and IH: "\<And>kv. kv \<in> set node \<Longrightarrow> canonicalize (canonicalize (snd kv)) = canonicalize (snd kv)"
    and ok: "node_ok node"
    and b: "\<not> is_module (set (map fst node))"
      "\<not> is_function (set (map fst node))"
      "is_test (set (map fst node))"
  shows "canonicalize (canonicalize (JDict node)) = canonicalize (JDict node)"
proof -
  let ?K = "set (map fst node)"
  let ?out = "canon_items (drop_none (ordered_dict node TEST_KEY_ORDER))"
  let ?K' = "set (map fst ?out)"
  from b have 1: "canonicalize (JDict node) = JDict ?out"
    by (simp add: canonicalize.simps(2))
  have K': "?K' = {k \<in> ?K. map_of node k \<noteq> Some JNull}" by (rule keys_dropped)
  have sub: "?K' \<subseteq> ?K" unfolding K' by blast
  from ok b have nn: "list_all (\<lambda>k. map_of node k \<noteq> Some JNull) [''fn'', ''args'', ''expect'']"
    by (simp add: node_ok_def)
  have 2: "\<not> is_module ?K'" using sub b(1) by (rule heuristics_subset(1))
  have f: "\<not> is_function ?K'" using sub b(2) by (rule heuristics_subset(2))
  have "is_test {k \<in> ?K. map_of node k \<noteq> Some JNull}"
    using b(3) nn by (simp add: is_test_def)
  then have t: "is_test ?K'" unfolding K' .
  note 3 = f t
  from 2 3 have "canonicalize (JDict ?out)
      = JDict (canon_items (drop_none (ordered_dict ?out TEST_KEY_ORDER)))"
    by (simp only: canonicalize.simps(2) if_True if_False)
  with branch_idem_drop [OF distinct_key_orders(3) dn IH] show ?thesis by (simp only: 1)
qed

lemma idem_property:
  assumes dn: "distinct (map fst node)"
    and IH: "\<And>kv. kv \<in> set node \<Longrightarrow> canonicalize (canonicalize (snd kv)) = canonicalize (snd kv)"
    and ok: "node_ok node"
    and b: "\<not> is_module (set (map fst node))"
      "\<not> is_function (set (map fst node))"
      "\<not> is_test (set (map fst node))"
      "is_property (set (map fst node))"
  shows "canonicalize (canonicalize (JDict node)) = canonicalize (JDict node)"
proof -
  let ?K = "set (map fst node)"
  let ?out = "canon_items (drop_none (ordered_dict node PROPERTY_KEY_ORDER))"
  let ?K' = "set (map fst ?out)"
  from b have 1: "canonicalize (JDict node) = JDict ?out"
    by (simp add: canonicalize.simps(2))
  have K': "?K' = {k \<in> ?K. map_of node k \<noteq> Some JNull}" by (rule keys_dropped)
  have sub: "?K' \<subseteq> ?K" unfolding K' by blast
  from ok b have nn: "list_all (\<lambda>k. map_of node k \<noteq> Some JNull) [''fn'', ''strategy'', ''expect'']"
    by (simp add: node_ok_def)
  have 2: "\<not> is_module ?K'" using sub b(1) by (rule heuristics_subset(1))
  have f: "\<not> is_function ?K'" using sub b(2) by (rule heuristics_subset(2))
  have "is_property {k \<in> ?K. map_of node k \<noteq> Some JNull}"
    using b(4) nn by (simp add: is_property_def)
  then have t: "is_property ?K'" unfolding K' .
  from t have nt: "\<not> is_test ?K'" by (simp add: is_test_def is_property_def)
  note 3 = f nt t
  from 2 3 have "canonicalize (JDict ?out)
      = JDict (canon_items (drop_none (ordered_dict ?out PROPERTY_KEY_ORDER)))"
    by (simp only: canonicalize.simps(2) if_True if_False)
  with branch_idem_drop [OF distinct_key_orders(4) dn IH] show ?thesis by (simp only: 1)
qed



lemma idem_fallback:
  assumes dn: "distinct (map fst node)"
    and IH: "\<And>kv. kv \<in> set node \<Longrightarrow> canonicalize (canonicalize (snd kv)) = canonicalize (snd kv)"
    and e: "\<not> is_module (set (map fst node))" "\<not> is_function (set (map fst node))"
      "\<not> is_test (set (map fst node))" "\<not> is_property (set (map fst node))"
    and len: "length node \<noteq> 1"
  shows "canonicalize (canonicalize (JDict node)) = canonicalize (JDict node)"
proof -
  let ?out = "canon_items (ordered_dict node [])"
  from e len have 1: "canonicalize (JDict node) = JDict ?out"
    by (simp only: canonicalize.simps(2) if_False simp_thms)
  have K: "set (map fst ?out) = set (map fst node)" unfolding keys_canon_items keys_ordered_dict ..
  from len have l: "length ?out \<noteq> 1" by (simp add: length_ordered_dict_Nil)
  from e l have "canonicalize (JDict ?out) = JDict (canon_items (ordered_dict ?out []))"
    unfolding K [symmetric] by (simp only: canonicalize.simps(2) if_False simp_thms)
  with branch_idem [of "[]", OF _ dn IH] show ?thesis by (simp only: 1 distinct.simps)
qed

lemma idem_single:
  assumes IHval: "canonicalize (canonicalize val) = canonicalize val"
    and inner: "\<And>d p. val = JDict d \<Longrightarrow> distinct p \<Longrightarrow>
        canon_items (drop_none (ordered_dict (canon_items (drop_none (ordered_dict d p))) p))
        = canon_items (drop_none (ordered_dict d p))"
    and innerobj: "\<And>d. val = JDict d \<Longrightarrow>
        map (\<lambda>k. (k, canonicalize (the (map_of
            (map (\<lambda>k. (k, canonicalize (the (map_of d k)))) (sort (map fst d))) k))))
           (sort (map fst (map (\<lambda>k. (k, canonicalize (the (map_of d k)))) (sort (map fst d)))))
        = map (\<lambda>k. (k, canonicalize (the (map_of d k)))) (sort (map fst d))"
  shows "canonicalize (canonicalize (JDict [(tag, val)])) = canonicalize (JDict [(tag, val)])"
proof (cases "is_dict val \<and> tag \<in> set [''if'', ''let'', ''assert'', ''call'', ''obj'']")
  case False
  then have 1: "canonicalize (JDict [(tag, val)]) = JDict [(tag, canonicalize val)]"
    by (subst canon_single) auto
  from False have "canonicalize (JDict [(tag, canonicalize val)])
      = JDict [(tag, canonicalize (canonicalize val))]"
    by (subst canon_single) (auto simp: canonicalize_is_dict)
  with IHval show ?thesis by (simp only: 1)
next
  case True
  then obtain d where d: "val = JDict d" by (cases val) (auto simp: is_dict_def)
  note i = inner [OF d] innerobj [OF d]
  from True consider "tag = ''if''" | "tag = ''let''" | "tag = ''assert''" | "tag = ''call''"
    | "tag = ''obj''" by auto
  then show ?thesis
  proof cases
    case 1
    then show ?thesis
      by (simp add: d canon_single is_dict_def members_def i distinct_key_orders)
  next
    case 2
    then show ?thesis
      by (simp add: d canon_single is_dict_def members_def i distinct_key_orders)
  next
    case 3
    then show ?thesis
      by (simp add: d canon_single is_dict_def members_def i distinct_key_orders)
  next
    case 4
    then show ?thesis
      by (simp add: d canon_single is_dict_def members_def i distinct_key_orders)
  next
    case 5
    with i(2) show ?thesis
      by (simp add: d canon_single is_dict_def members_def)
  qed
qed


lemma canonicalize_idem_aux:
  "wf_json v \<Longrightarrow> trigger_keys_not_null v \<Longrightarrow> canonicalize (canonicalize v) = canonicalize v"
proof (induction v rule: measure_induct_rule [where f = size])
  case (less v)
  show ?case
  proof (cases v)
    case (JList xs)
    have "canonicalize (canonicalize x) = canonicalize x" if "x \<in> set xs" for x
      using that less.prems JList by (intro less.IH) (auto simp: list_all_iff size_elem)
    then show ?thesis by (simp add: JList canonicalize.simps(1))
  next
    case (JDict node)
    let ?K = "set (map fst node)"
    from less.prems JDict have dn: "distinct (map fst node)" and ok: "node_ok node"
      and wfv: "\<And>kv. kv \<in> set node \<Longrightarrow> wf_json (snd kv)"
      and okv: "\<And>kv. kv \<in> set node \<Longrightarrow> trigger_keys_not_null (snd kv)"
      by (auto simp: list_all_iff)
    have IH: "canonicalize (canonicalize (snd kv)) = canonicalize (snd kv)" if "kv \<in> set node" for kv
      using that wfv okv JDict by (intro less.IH) (auto simp: size_member)
    consider (a) "is_module ?K"
      | (b) "\<not> is_module ?K" "is_function ?K"
      | (c) "\<not> is_module ?K" "\<not> is_function ?K" "is_test ?K"
      | (d) "\<not> is_module ?K" "\<not> is_function ?K" "\<not> is_test ?K" "is_property ?K"
      | (e) "\<not> is_module ?K" "\<not> is_function ?K" "\<not> is_test ?K" "\<not> is_property ?K"
          "length node \<noteq> 1"
      | (f) "length node = 1"
      by blast
    then show ?thesis
    proof cases
      case a
      with dn IH show ?thesis unfolding JDict by (rule idem_module)
    next
      case b
      with dn IH ok show ?thesis unfolding JDict by (rule idem_function)
    next
      case c
      with dn IH ok show ?thesis unfolding JDict by (rule idem_test)
    next
      case d
      with dn IH ok show ?thesis unfolding JDict by (rule idem_property)
    next
      case e
      with dn IH show ?thesis unfolding JDict by (rule idem_fallback)
    next
      case f
      then obtain tag val where node: "node = [(tag, val)]"
        by (cases node) (auto simp: Suc_length_conv)
      from IH node have IHval: "canonicalize (canonicalize val) = canonicalize val" by simp
      have inner: "canon_items (drop_none (ordered_dict (canon_items (drop_none (ordered_dict d p))) p))
             = canon_items (drop_none (ordered_dict d p))"
        and innerobj: "map (\<lambda>k. (k, canonicalize (the (map_of
            (map (\<lambda>k. (k, canonicalize (the (map_of d k)))) (sort (map fst d))) k))))
           (sort (map fst (map (\<lambda>k. (k, canonicalize (the (map_of d k)))) (sort (map fst d)))))
             = map (\<lambda>k. (k, canonicalize (the (map_of d k)))) (sort (map fst d))"
        if "val = JDict d" "distinct p" for d p
      proof -
        from that wfv [of "(tag, val)"] okv [of "(tag, val)"] node
        have dd: "distinct (map fst d)"
          and w: "\<And>kv. kv \<in> set d \<Longrightarrow> wf_json (snd kv)"
          and k: "\<And>kv. kv \<in> set d \<Longrightarrow> trigger_keys_not_null (snd kv)"
          by (auto simp: list_all_iff)
        have I: "canonicalize (canonicalize (snd kv)) = canonicalize (snd kv)" if "kv \<in> set d" for kv
        proof (rule less.IH)
          from that have "size (snd kv) < size val" using \<open>val = JDict d\<close> by (simp add: size_member)
          also have "\<dots> < size v" by (simp add: JDict node)
          finally show "size (snd kv) < size v" .
        qed (use that w k in auto)
        show "canon_items (drop_none (ordered_dict (canon_items (drop_none (ordered_dict d p))) p))
             = canon_items (drop_none (ordered_dict d p))"
          using \<open>distinct p\<close> dd I by (rule branch_idem_drop)
        show "map (\<lambda>k. (k, canonicalize (the (map_of
            (map (\<lambda>k. (k, canonicalize (the (map_of d k)))) (sort (map fst d))) k))))
           (sort (map fst (map (\<lambda>k. (k, canonicalize (the (map_of d k)))) (sort (map fst d)))))
             = map (\<lambda>k. (k, canonicalize (the (map_of d k)))) (sort (map fst d))"
          using dd I by (rule obj_idem)
      qed
      show ?thesis unfolding JDict node
        by (rule idem_single [OF IHval inner innerobj [OF _ distinct_key_orders(1)]])
    qed
  qed (simp_all add: canonicalize.simps)
qed


subsection \<open>Serialisation\<close>

text \<open>
  \<open>json.dumps(value, indent=2, ensure_ascii=False)\<close>: members and items one per line,
  indented by two spaces per level, \<open>", "\<close> never used, \<open>": "\<close> after a key, an empty list or
  object written \<open>[]\<close> or \<open>{}\<close>; in a string only the backslash, the double quote and the
  control characters are escaped. The text of a \<open>float\<close> is Python's \<open>float.__repr__\<close>, which
  is not modelled: \<open>dumps_value\<close> is \<open>None\<close> on a value that holds a \<open>float\<close>.
\<close>

definition str_of_int :: "int \<Rightarrow> string" where
  "str_of_int i = (if i < 0 then CHR ''-'' # str_of_nat (nat (- i)) else str_of_nat (nat i))"

definition hex_chars :: string where
  "hex_chars = ''0123456789abcdef''"

definition escape_char :: "char \<Rightarrow> string" where
  "escape_char c =
     (if c = CHR 0x5C then [CHR 0x5C, CHR 0x5C]
      else if c = CHR 0x22 then [CHR 0x5C, CHR 0x22]
      else if c = CHR 0x08 then [CHR 0x5C, CHR ''b'']
      else if c = CHR 0x0C then [CHR 0x5C, CHR ''f'']
      else if c = CHR 0x0A then [CHR 0x5C, CHR ''n'']
      else if c = CHR 0x0D then [CHR 0x5C, CHR ''r'']
      else if c = CHR 0x09 then [CHR 0x5C, CHR ''t'']
      else if (of_char c :: nat) < 32
      then [CHR 0x5C, CHR ''u'', CHR ''0'', CHR ''0'',
            hex_chars ! ((of_char c :: nat) div 16), hex_chars ! ((of_char c :: nat) mod 16)]
      else [c])"

definition encode_basestring :: "string \<Rightarrow> string" where
  "encode_basestring s = CHR 0x22 # concat (map escape_char s) @ [CHR 0x22]"

definition newline_indent :: "nat \<Rightarrow> string" where
  "newline_indent level = CHR 0x0A # replicate (2 * level) (CHR '' '')"

fun dumps_value :: "nat \<Rightarrow> json \<Rightarrow> string option"
  and dumps_items :: "nat \<Rightarrow> json list \<Rightarrow> string list option"
  and dumps_members :: "nat \<Rightarrow> (string \<times> json) list \<Rightarrow> string list option"
where
  "dumps_value lvl JNull = Some ''null''"
| "dumps_value lvl (JBool b) = Some (if b then ''true'' else ''false'')"
| "dumps_value lvl (JInt i) = Some (str_of_int i)"
| "dumps_value lvl (JFloat r) = None"
| "dumps_value lvl (JStr s) = Some (encode_basestring s)"
| "dumps_value lvl (JList xs) =
     (if xs = [] then Some ''[]''
      else map_option
             (\<lambda>items. ''['' @ newline_indent (Suc lvl)
                 @ join_with ('','' @ newline_indent (Suc lvl)) items @ newline_indent lvl @ '']'')
             (dumps_items (Suc lvl) xs))"
| "dumps_value lvl (JDict d) =
     (if d = [] then Some ''{}''
      else map_option
             (\<lambda>items. ''{'' @ newline_indent (Suc lvl)
                 @ join_with ('','' @ newline_indent (Suc lvl)) items @ newline_indent lvl @ ''}'')
             (dumps_members (Suc lvl) d))"
| "dumps_items lvl [] = Some []"
| "dumps_items lvl (x # xs) =
     (case dumps_value lvl x of
        None \<Rightarrow> None
      | Some s \<Rightarrow> map_option ((#) s) (dumps_items lvl xs))"
| "dumps_members lvl [] = Some []"
| "dumps_members lvl (m # ms) =
     (case dumps_value lvl (snd m) of
        None \<Rightarrow> None
      | Some s \<Rightarrow> map_option ((#) (encode_basestring (fst m) @ '': '' @ s)) (dumps_members lvl ms))"

definition dumps_canonical :: "json \<Rightarrow> string option" where
  "dumps_canonical ast = map_option (\<lambda>s. s @ [CHR 0x0A]) (dumps_value 0 (canonicalize ast))"

lemmas canon_eval =
  canonicalize.simps is_module_def is_function_def is_test_def is_property_def
  statement_tags_def expression_tags_def ordered_dict_def drop_none_def members_def is_dict_def
  MODULE_KEY_ORDER_def FUNCTION_KEY_ORDER_def TEST_KEY_ORDER_def PROPERTY_KEY_ORDER_def
  IF_KEY_ORDER_def LET_KEY_ORDER_def ASSERT_KEY_ORDER_def CALL_KEY_ORDER_def

lemmas dumps_eval =
  dumps_canonical_def encode_basestring_def escape_char_def newline_indent_def str_of_int_def
  hex_chars_def digit_chars_def str_of_nat.simps

section \<open>Canonicalisation is idempotent (C1)\<close>

text \<open>
  C1, amended. For every JSON value \<open>M\<close> (a tree of Python values, so no object holds a key
  twice) in which no object that matches the function, test-case or property heuristic
  has \<open>null\<close> under one of the keys the heuristic asks for,
  \<open>canonicalize(canonicalize(M))\<close> is \<open>canonicalize(M)\<close>, with the same order of keys, and
  therefore \<open>dumps_canonical(canonicalize(M))\<close> is \<open>dumps_canonical(M)\<close>.
\<close>

theorem canonicalize_idempotent:
  assumes "wf_json M" and "trigger_keys_not_null M"
  shows "canonicalize (canonicalize M) = canonicalize M
         \<and> dumps_canonical (canonicalize M) = dumps_canonical M"
proof -
  from assms have "canonicalize (canonicalize M) = canonicalize M"
    by (rule canonicalize_idem_aux)
  then show ?thesis by (simp add: dumps_canonical_def)
qed

theorem canonicalize_idempotent_witness:
  "wf_json (JDict [(''functions'', JList [JDict [(''body'', JList [JDict [(''return'', JNull)]]),
        (''name'', JStr ''f''), (''effects'', JList []), (''params'', JList [])]]),
      (''version'', JStr ''1''), (''module'', JStr ''m'')])
   \<and> trigger_keys_not_null (JDict [(''functions'', JList [JDict [(''body'', JList [JDict [(''return'', JNull)]]),
        (''name'', JStr ''f''), (''effects'', JList []), (''params'', JList [])]]),
      (''version'', JStr ''1''), (''module'', JStr ''m'')])
   \<and> canonicalize (JDict [(''functions'', JList [JDict [(''body'', JList [JDict [(''return'', JNull)]]),
        (''name'', JStr ''f''), (''effects'', JList []), (''params'', JList [])]]),
      (''version'', JStr ''1''), (''module'', JStr ''m'')])
     = JDict [(''module'', JStr ''m''), (''version'', JStr ''1''),
        (''functions'', JList [JDict [(''name'', JStr ''f''), (''params'', JList []),
          (''effects'', JList []), (''body'', JList [JDict [(''return'', JNull)]])]])]
   \<and> canonicalize (canonicalize (JDict [(''functions'', JList [JDict [(''body'', JList [JDict [(''return'', JNull)]]),
        (''name'', JStr ''f''), (''effects'', JList []), (''params'', JList [])]]),
      (''version'', JStr ''1''), (''module'', JStr ''m'')]))
     = canonicalize (JDict [(''functions'', JList [JDict [(''body'', JList [JDict [(''return'', JNull)]]),
        (''name'', JStr ''f''), (''effects'', JList []), (''params'', JList [])]]),
      (''version'', JStr ''1''), (''module'', JStr ''m'')])"
proof -
  let ?M = "JDict [(''functions'', JList [JDict [(''body'', JList [JDict [(''return'', JNull)]]),
        (''name'', JStr ''f''), (''effects'', JList []), (''params'', JList [])]]),
      (''version'', JStr ''1''), (''module'', JStr ''m'')]"
  have h: "wf_json ?M" "trigger_keys_not_null ?M"
    by (simp_all add: node_ok_def is_module_def is_function_def is_test_def is_property_def)
  have c: "canonicalize ?M = JDict [(''module'', JStr ''m''), (''version'', JStr ''1''),
        (''functions'', JList [JDict [(''name'', JStr ''f''), (''params'', JList []),
          (''effects'', JList []), (''body'', JList [JDict [(''return'', JNull)]])]])]"
    by (simp add: canon_eval)
  from canonicalize_idempotent [OF h] h c show ?thesis by simp
qed

text \<open>
  C1, as stated for every JSON value, fails on \<open>{"name": "f", "params": [], "effects": null,
  "body": []}\<close>. The first pass takes it for a function, orders its keys \<open>name, params,
  effects, body\<close> and drops \<open>effects\<close>; the result is no longer taken for a function, and the
  second pass orders its keys alphabetically: \<open>body, name, params\<close>. The two serialisations
  differ.
\<close>

theorem canonicalize_not_idempotent:
  "canonicalize (canonicalize (JDict [(''name'', JStr ''f''), (''params'', JList []),
       (''effects'', JNull), (''body'', JList [])]))
     = JDict [(''body'', JList []), (''name'', JStr ''f''), (''params'', JList [])]
   \<and> canonicalize (JDict [(''name'', JStr ''f''), (''params'', JList []),
       (''effects'', JNull), (''body'', JList [])])
     = JDict [(''name'', JStr ''f''), (''params'', JList []), (''body'', JList [])]
   \<and> dumps_canonical (canonicalize (JDict [(''name'', JStr ''f''), (''params'', JList []),
       (''effects'', JNull), (''body'', JList [])]))
     \<noteq> dumps_canonical (JDict [(''name'', JStr ''f''), (''params'', JList []),
       (''effects'', JNull), (''body'', JList [])])"
proof -
  have a: "canonicalize (JDict [(''name'', JStr ''f''), (''params'', JList []),
       (''effects'', JNull), (''body'', JList [])])
     = JDict [(''name'', JStr ''f''), (''params'', JList []), (''body'', JList [])]"
    by (simp add: canon_eval)
  have b: "canonicalize (JDict [(''name'', JStr ''f''), (''params'', JList []), (''body'', JList [])])
     = JDict [(''body'', JList []), (''name'', JStr ''f''), (''params'', JList [])]"
    by (simp add: canon_eval)
  have "dumps_value 0 (JDict [(''body'', JList []), (''name'', JStr ''f''), (''params'', JList [])])
     \<noteq> dumps_value 0 (JDict [(''name'', JStr ''f''), (''params'', JList []), (''body'', JList [])])"
    by (simp add: dumps_eval)
  with a b show ?thesis by (simp add: dumps_canonical_def)
qed

section \<open>The text index (jsonpos.py)\<close>

text \<open>
  \<open>TextIndex\<close> converts between offsets into a Python string, which count code points, and
  editor positions, which count UTF-16 code units within a line. The text is a list of
  code points; the line feed is code point 10. Encoding to UTF-16 raises
  \<open>UnicodeEncodeError\<close> on a surrogate code point (\<open>0xD800\<close> to \<open>0xDFFF\<close>), which a Python
  string can hold; every other code point takes one unit, or two from \<open>0x10000\<close> on.
\<close>

definition is_surrogate :: "nat \<Rightarrow> bool" where
  "is_surrogate cp = (55296 \<le> cp \<and> cp \<le> 57343)"

definition utf16_units :: "nat \<Rightarrow> error + nat" where
  \<comment> \<open>\<open>len(ch.encode("utf-16-le")) // 2\<close>\<close>
  "utf16_units cp =
     (if is_surrogate cp then Inl UnicodeEncodeError else Inr (if 65536 \<le> cp then 2 else 1))"

primrec utf16_len :: "nat list \<Rightarrow> error + nat" where
  \<comment> \<open>\<open>len(s.encode("utf-16-le")) // 2\<close>\<close>
  "utf16_len [] = Inr 0"
| "utf16_len (c # cs) =
     (case utf16_units c of
        Inl e \<Rightarrow> Inl e
      | Inr u \<Rightarrow> (case utf16_len cs of Inl e \<Rightarrow> Inl e | Inr n \<Rightarrow> Inr (u + n)))"

definition find_from :: "nat \<Rightarrow> nat list \<Rightarrow> nat \<Rightarrow> nat option" where
  \<comment> \<open>\<open>s.find(c, start)\<close>, with \<open>None\<close> for \<open>-1\<close>\<close>
  "find_from c s start =
     (case filter (\<lambda>i. s ! i = c) [start ..< length s] of [] \<Rightarrow> None | i # _ \<Rightarrow> Some i)"

definition slice :: "'a list \<Rightarrow> nat \<Rightarrow> nat \<Rightarrow> 'a list" where
  \<comment> \<open>\<open>s[a:b]\<close> for indices that are not negative\<close>
  "slice s a b = take (b - a) (drop a s)"

record TextIndex =
  ti_text :: "nat list"
  ti_starts :: "nat list"
  ti_ends :: "nat list"

definition line_starts :: "nat list \<Rightarrow> nat list" where
  "line_starts s = 0 # map Suc (filter (\<lambda>i. s ! i = 10) [0 ..< length s])"

definition mk_TextIndex :: "nat list \<Rightarrow> TextIndex" where
  "mk_TextIndex s =
     \<lparr> ti_text = s,
       ti_starts = line_starts s,
       ti_ends = map (\<lambda>st. case find_from 10 s st of None \<Rightarrow> length s | Some nl \<Rightarrow> nl) (line_starts s) \<rparr>"

function find_line_loop :: "nat list \<Rightarrow> nat \<Rightarrow> nat \<Rightarrow> nat \<Rightarrow> nat" where
  "find_line_loop sts index lo hi =
     (if lo + 1 < hi
      then (if sts ! ((lo + hi) div 2) \<le> index
            then find_line_loop sts index ((lo + hi) div 2) hi
            else find_line_loop sts index lo ((lo + hi) div 2))
      else lo)"
  by pat_completeness auto
termination
  by (relation "measure (\<lambda>(sts, index, lo, hi). hi - lo)") auto

declare find_line_loop.simps [simp del]

definition find_line :: "TextIndex \<Rightarrow> nat \<Rightarrow> nat" where
  "find_line idx index = find_line_loop (ti_starts idx) index 0 (length (ti_starts idx))"

definition clamp_index :: "TextIndex \<Rightarrow> int \<Rightarrow> nat" where
  "clamp_index idx index =
     (if index < 0 then 0
      else if index > int (length (ti_text idx)) then length (ti_text idx)
      else nat index)"

text \<open>
  \<open>position\<close> returns the dictionary \<open>{"line": l, "character": c}\<close>, here the pair
  \<open>(l, c)\<close>. The column \<open>index - starts[line]\<close> is never negative
  (\<open>find_line_start_le\<close> below), so the subtraction of natural numbers is the source's.
\<close>

definition position :: "TextIndex \<Rightarrow> int \<Rightarrow> error + (nat \<times> nat)" where
  "position idx index0 =
     (let index = clamp_index idx index0;
          line = find_line idx index;
          col_cp = index - ti_starts idx ! line;
          line_text = slice (ti_text idx) (ti_starts idx ! line) (ti_ends idx ! line);
          prefix = take col_cp line_text
      in case utf16_len prefix of Inl e \<Rightarrow> Inl e | Inr char_utf16 \<Rightarrow> Inr (line, char_utf16))"

primrec offset_loop :: "nat list \<Rightarrow> nat \<Rightarrow> nat \<Rightarrow> nat \<Rightarrow> error + nat" where
  "offset_loop [] character units cp = Inr cp"
| "offset_loop (ch # rest) character units cp =
     (case utf16_units ch of
        Inl e \<Rightarrow> Inl e
      | Inr u \<Rightarrow>
          if units + u > character then Inr cp
          else offset_loop rest character (units + u) (cp + 1))"

definition offset :: "TextIndex \<Rightarrow> int \<Rightarrow> int \<Rightarrow> error + nat" where
  "offset idx line0 character0 =
     (let line = (if line0 < 0 then 0
                  else if line0 \<ge> int (length (ti_starts idx)) then length (ti_starts idx) - 1
                  else nat line0);
          character_utf16 = (if character0 < 0 then 0 else nat character0);
          line_start = ti_starts idx ! line;
          line_end = ti_ends idx ! line;
          line_text = slice (ti_text idx) line_start line_end
      in case offset_loop line_text character_utf16 0 0 of
           Inl e \<Rightarrow> Inl e
         | Inr cp \<Rightarrow> Inr (line_start + cp))"

subsection \<open>The line of an offset\<close>

lemma find_line_loop_spec:
  assumes "lo < hi" "hi \<le> length sts" "sts ! lo \<le> i" "hi < length sts \<longrightarrow> i < sts ! hi"
  shows "find_line_loop sts i lo hi < length sts
         \<and> sts ! find_line_loop sts i lo hi \<le> i
         \<and> (Suc (find_line_loop sts i lo hi) < length sts \<longrightarrow> i < sts ! Suc (find_line_loop sts i lo hi))"
  using assms
proof (induction sts i lo hi rule: find_line_loop.induct)
  case (1 sts index lo hi)
  show ?case
  proof (cases "lo + 1 < hi")
    case False
    then have r: "find_line_loop sts index lo hi = lo"
      by (simp add: find_line_loop.simps [of sts index lo hi])
    from False "1.prems" have "hi = Suc lo" by simp
    with "1.prems" show ?thesis unfolding r by simp
  next
    case True
    let ?mid = "(lo + hi) div 2"
    from True have mid: "lo < ?mid" "?mid < hi" by simp_all
    show ?thesis
    proof (cases "sts ! ?mid \<le> index")
      case le: True
      from mid "1.prems" le
      have "find_line_loop sts index ?mid hi < length sts
         \<and> sts ! find_line_loop sts index ?mid hi \<le> index
         \<and> (Suc (find_line_loop sts index ?mid hi) < length sts \<longrightarrow> index < sts ! Suc (find_line_loop sts index ?mid hi))"
        by (intro "1.IH"(1) True le) simp_all
      with True le show ?thesis
        by (simp add: find_line_loop.simps [of sts index lo hi])
    next
      case gt: False
      from mid "1.prems" gt
      have "find_line_loop sts index lo ?mid < length sts
         \<and> sts ! find_line_loop sts index lo ?mid \<le> index
         \<and> (Suc (find_line_loop sts index lo ?mid) < length sts \<longrightarrow> index < sts ! Suc (find_line_loop sts index lo ?mid))"
        by (intro "1.IH"(2) True gt) simp_all
      with True gt show ?thesis
        by (simp add: find_line_loop.simps [of sts index lo hi])
    qed
  qed
qed

lemma line_starts_nonempty: "line_starts s \<noteq> []" "line_starts s ! 0 = 0"
  by (simp_all add: line_starts_def)

lemma line_starts_sorted: "sorted_wrt (<) (line_starts s)"
  by (simp add: line_starts_def sorted_wrt_map sorted_wrt_filter)

lemma line_starts_newline:
  "j < length s \<Longrightarrow> s ! j = 10 \<Longrightarrow> Suc j \<in> set (line_starts s)"
  by (simp add: line_starts_def)


lemma find_line_props:
  assumes "i \<le> length s"
  shows "find_line (mk_TextIndex s) i < length (line_starts s)"
    and "line_starts s ! find_line (mk_TextIndex s) i \<le> i"
    and "Suc (find_line (mk_TextIndex s) i) < length (line_starts s)
         \<Longrightarrow> i < line_starts s ! Suc (find_line (mk_TextIndex s) i)"
proof -
  have "0 < length (line_starts s)" "length (line_starts s) \<le> length (line_starts s)"
    "line_starts s ! 0 \<le> i"
    "length (line_starts s) < length (line_starts s) \<longrightarrow> i < line_starts s ! length (line_starts s)"
    by (simp_all add: line_starts_def)
  from find_line_loop_spec [OF this]
  show "find_line (mk_TextIndex s) i < length (line_starts s)"
    and "line_starts s ! find_line (mk_TextIndex s) i \<le> i"
    and "Suc (find_line (mk_TextIndex s) i) < length (line_starts s)
         \<Longrightarrow> i < line_starts s ! Suc (find_line (mk_TextIndex s) i)"
    by (simp_all add: find_line_def mk_TextIndex_def)
qed

lemma no_newline_before:
  assumes i: "i \<le> length s"
    and j: "line_starts s ! find_line (mk_TextIndex s) i \<le> j" "j < i"
  shows "s ! j \<noteq> 10"
proof
  let ?l = "find_line (mk_TextIndex s) i"
  let ?sts = "line_starts s"
  assume nl: "s ! j = 10"
  from j i have "j < length s" by simp
  with nl have "Suc j \<in> set ?sts" by (simp add: line_starts_newline)
  then obtain m where m: "m < length ?sts" "?sts ! m = Suc j"
    by (auto simp: in_set_conv_nth)
  from find_line_props [OF i] have l: "?l < length ?sts" "?sts ! ?l \<le> i" by simp_all
  have "?l < m"
  proof (rule ccontr)
    assume "\<not> ?l < m"
    then have "m \<le> ?l" by simp
    with line_starts_sorted [of s] l(1) have "?sts ! m \<le> ?sts ! ?l"
      by (cases "m = ?l") (auto dest: sorted_wrt_nth_less [where xs = ?sts and i = m and j = ?l])
    with m j show False by simp
  qed
  then have "Suc ?l \<le> m" by simp
  with m(1) have sl: "Suc ?l < length ?sts" by simp
  from \<open>Suc ?l \<le> m\<close> line_starts_sorted [of s] m(1) have "?sts ! Suc ?l \<le> ?sts ! m"
    by (cases "Suc ?l = m") (auto dest: sorted_wrt_nth_less [where xs = ?sts and i = "Suc ?l" and j = m])
  with m j have "?sts ! Suc ?l \<le> i" by simp
  with find_line_props(3) [OF i sl] show False by simp
qed

lemma find_from_ge:
  assumes "st \<le> i" "i \<le> length s" "\<And>j. st \<le> j \<Longrightarrow> j < i \<Longrightarrow> s ! j \<noteq> c"
  shows "i \<le> (case find_from c s st of None \<Rightarrow> length s | Some nl \<Rightarrow> nl)"
    and "(case find_from c s st of None \<Rightarrow> length s | Some nl \<Rightarrow> nl) \<le> length s"
proof -
  show "i \<le> (case find_from c s st of None \<Rightarrow> length s | Some nl \<Rightarrow> nl)"
  proof (cases "filter (\<lambda>i. s ! i = c) [st ..< length s]")
    case Nil
    with assms show ?thesis by (simp add: find_from_def)
  next
    case (Cons nl rest)
    then have "nl \<in> set (filter (\<lambda>i. s ! i = c) [st ..< length s])" by simp
    then have "st \<le> nl" "s ! nl = c" by auto
    with assms(3) [of nl] have "i \<le> nl" by (cases "nl < i") auto
    with Cons show ?thesis by (simp add: find_from_def)
  qed
  show "(case find_from c s st of None \<Rightarrow> length s | Some nl \<Rightarrow> nl) \<le> length s"
  proof (cases "filter (\<lambda>i. s ! i = c) [st ..< length s]")
    case Nil
    then show ?thesis by (simp add: find_from_def)
  next
    case (Cons nl rest)
    then have "nl \<in> set (filter (\<lambda>i. s ! i = c) [st ..< length s])" by simp
    then have "nl < length s" by auto
    with Cons show ?thesis by (simp add: find_from_def)
  qed
qed

lemma utf16_len_ok:
  "\<forall>cp \<in> set xs. \<not> is_surrogate cp \<Longrightarrow> \<exists>n. utf16_len xs = Inr n"
  by (induction xs) (auto simp: utf16_units_def)

lemma offset_loop_prefix:
  "utf16_len pre = Inr n \<Longrightarrow> units + n \<le> c \<Longrightarrow>
   offset_loop (pre @ rest) c units cp = offset_loop rest c (units + n) (cp + length pre)"
proof (induction pre arbitrary: n units cp)
  case Nil
  then show ?case by simp
next
  case (Cons ch pre)
  from Cons.prems(1) obtain u m where u: "utf16_units ch = Inr u" and m: "utf16_len pre = Inr m"
    and n: "n = u + m"
    by (auto split: sum.splits)
  from Cons.prems(2) n have "units + u + m \<le> c" by simp
  from Cons.IH [OF m this, of "cp + 1"] u n Cons.prems(2) show ?case by (simp add: add.assoc)
qed

lemma offset_loop_stop:
  "rest = [] \<or> \<not> is_surrogate (hd rest) \<Longrightarrow> offset_loop rest c c cp = Inr cp"
  by (cases rest) (auto simp: utf16_units_def)

lemma length_take_slice:
  "st \<le> n \<Longrightarrow> n \<le> en \<Longrightarrow> en \<le> length s \<Longrightarrow> length (take (n - st) (slice s st en)) = n - st"
  by (simp add: slice_def)

lemma take_slice_subset:
  "n \<le> en \<Longrightarrow> set (take (n - st) (slice s st en)) \<subseteq> set (take n s)"
proof -
  assume "n \<le> en"
  then have "take (n - st) (slice s st en) = drop st (take n s)"
    by (simp add: slice_def drop_take min_def)
  then show ?thesis by (simp add: set_drop_subset)
qed

lemma hd_drop_slice:
  assumes "st \<le> n" "n < en" "en \<le> length s"
  shows "hd (drop (n - st) (slice s st en)) = s ! n"
proof -
  from assms have "n - st < length (slice s st en)" by (simp add: slice_def)
  then have "hd (drop (n - st) (slice s st en)) = slice s st en ! (n - st)"
    by (simp add: hd_drop_conv_nth)
  also from assms have "\<dots> = s ! n" by (simp add: slice_def)
  finally show ?thesis .
qed

lemma find_line_start_le:
  "line_starts s ! find_line (mk_TextIndex s) (clamp_index (mk_TextIndex s) i) \<le> clamp_index (mk_TextIndex s) i"
  by (rule find_line_props(2)) (auto simp: clamp_index_def mk_TextIndex_def)

lemmas textindex_eval =
  mk_TextIndex_def line_starts_def find_from_def position_def offset_def find_line_def
  clamp_index_def slice_def utf16_units_def is_surrogate_def Let_def upt_rec
  find_line_loop.simps

section \<open>UTF-16 position fidelity (C7)\<close>

text \<open>
  C7, as stated, for every text and every offset \<open>i\<close> from \<open>0\<close> to its length. It fails on
  a text that holds a surrogate code point: for the one-character text \<open>"\ud800"\<close> and
  \<open>i = 1\<close>, \<open>position\<close> encodes the prefix \<open>"\ud800"\<close> and raises \<open>UnicodeEncodeError\<close>, so
  there is no position to convert back.
\<close>

theorem position_raises_on_surrogate:
  "position (mk_TextIndex [55296]) 1 = Inl UnicodeEncodeError
   \<and> \<not> (\<exists>l c. position (mk_TextIndex [55296]) 1 = Inr (l, c)
            \<and> offset (mk_TextIndex [55296]) (int l) (int c) = Inr (nat 1))"
  by (simp add: textindex_eval)

text \<open>
  C7, amended. For every text and every offset \<open>i\<close> with \<open>0 \<le> i \<le> len(text)\<close> such that
  none of the code points at the offsets \<open>0, \<dots>, i\<close> is a surrogate, \<open>position\<close> returns a
  position \<open>(l, c)\<close> and \<open>offset(l, c)\<close> returns \<open>i\<close>.
\<close>

theorem position_offset_roundtrip:
  assumes ns: "list_all (\<lambda>cp. \<not> is_surrogate cp) (take (Suc (nat i)) s)"
    and i0: "0 \<le> i" and i1: "i \<le> int (length s)"
  shows "\<exists>l c. position (mk_TextIndex s) i = Inr (l, c)
           \<and> offset (mk_TextIndex s) (int l) (int c) = Inr (nat i)"
proof -
  let ?idx = "mk_TextIndex s"
  let ?n = "nat i"
  let ?l = "find_line ?idx ?n"
  let ?st = "line_starts s ! ?l"
  let ?en = "case find_from 10 s ?st of None \<Rightarrow> length s | Some nl \<Rightarrow> nl"
  let ?line = "slice s ?st ?en"
  from i0 i1 have n: "?n \<le> length s" by simp
  from i0 i1 have clamp: "clamp_index ?idx i = ?n" by (simp add: clamp_index_def mk_TextIndex_def)
  from find_line_props [OF n] have l: "?l < length (line_starts s)" and st: "?st \<le> ?n" by simp_all
  have starts: "ti_starts ?idx = line_starts s" and tx: "ti_text ?idx = s"
    by (simp_all add: mk_TextIndex_def)
  from l have ends: "ti_ends ?idx ! ?l = ?en" by (simp add: mk_TextIndex_def)
  have nonl: "\<And>j. ?st \<le> j \<Longrightarrow> j < ?n \<Longrightarrow> s ! j \<noteq> 10"
    using no_newline_before [OF n] by blast
  from find_from_ge [OF st n nonl] have en: "?n \<le> ?en" "?en \<le> length s" by simp_all
  let ?pre = "take (?n - ?st) ?line"
  let ?rest = "drop (?n - ?st) ?line"
  from ns have ok: "\<forall>cp \<in> set (take (Suc ?n) s). \<not> is_surrogate cp"
    by (simp add: list_all_iff)
  have "set ?pre \<subseteq> set (take ?n s)" using en(1) by (rule take_slice_subset)
  also have "\<dots> \<subseteq> set (take (Suc ?n) s)" by (rule set_take_subset_set_take) simp
  finally have "\<forall>cp \<in> set ?pre. \<not> is_surrogate cp" using ok by blast
  then obtain c where c: "utf16_len ?pre = Inr c"
    using utf16_len_ok [of ?pre] by blast
  have "?rest = [] \<or> \<not> is_surrogate (hd ?rest)"
  proof (cases "?n < ?en")
    case True
    with st en have "hd ?rest = s ! ?n" by (intro hd_drop_slice) simp_all
    moreover from True en have "s ! ?n \<in> set (take (Suc ?n) s)"
      by (auto simp: in_set_conv_nth intro!: exI [of _ ?n])
    ultimately show ?thesis using ok by simp
  next
    case False
    with en have "?n = ?en" by simp
    then have "?rest = []" by (simp add: slice_def)
    then show ?thesis ..
  qed
  then have rest: "offset_loop ?rest c c (?n - ?st) = Inr (?n - ?st)"
    by (rule offset_loop_stop)
  from st en have lenpre: "length ?pre = ?n - ?st" by (rule length_take_slice)
  have pos: "position ?idx i = Inr (?l, c)"
    using c by (simp add: position_def Let_def clamp starts tx ends)
  have "offset_loop ?line c 0 0 = offset_loop (?pre @ ?rest) c 0 0" by simp
  also have "\<dots> = offset_loop ?rest c (0 + c) (0 + length ?pre)"
    by (rule offset_loop_prefix [OF c]) simp
  also have "\<dots> = Inr (?n - ?st)" using rest lenpre by simp
  finally have loop: "offset_loop ?line c 0 0 = Inr (?n - ?st)" .
  from l have "offset ?idx (int ?l) (int c) = Inr (?st + (?n - ?st))"
    by (simp add: offset_def Let_def starts tx ends loop)
  with st have "offset ?idx (int ?l) (int c) = Inr ?n" by simp
  with pos show ?thesis by blast
qed

theorem position_offset_roundtrip_witness:
  "list_all (\<lambda>cp. \<not> is_surrogate cp) (take (Suc (nat 3)) [97, 10, 128512, 98])
   \<and> (0::int) \<le> 3 \<and> (3::int) \<le> int (length [97::nat, 10, 128512, 98])
   \<and> position (mk_TextIndex [97, 10, 128512, 98]) 3 = Inr (1, 2)
   \<and> offset (mk_TextIndex [97, 10, 128512, 98]) 1 2 = Inr 3"
proof -
  have h: "list_all (\<lambda>cp. \<not> is_surrogate cp) (take (Suc (nat 3)) [97, 10, 128512, 98])"
    "(0::int) \<le> 3" "(3::int) \<le> int (length [97::nat, 10, 128512, 98])"
    by (simp_all add: is_surrogate_def)
  from position_offset_roundtrip [OF h]
  obtain l c where "position (mk_TextIndex [97, 10, 128512, 98]) 3 = Inr (l, c)"
    and "offset (mk_TextIndex [97, 10, 128512, 98]) (int l) (int c) = Inr (nat 3)"
    by blast
  moreover have "position (mk_TextIndex [97, 10, 128512, 98]) 3 = Inr (1, 2)"
    by (simp add: textindex_eval)
  ultimately have "offset (mk_TextIndex [97, 10, 128512, 98]) 1 2 = Inr 3" by auto
  with h \<open>position (mk_TextIndex [97, 10, 128512, 98]) 3 = Inr (1, 2)\<close> show ?thesis by simp
qed


section \<open>Numeric widening (C8)\<close>

text \<open>
  C8. Numeric widening is asymmetric in unification. From the empty substitution,
  \<open>unify\<close> accepts an \<open>Int\<close> where a \<open>Float\<close> is expected and leaves the substitution
  empty, and refuses a \<open>Float\<close> where an \<open>Int\<close> is expected; the join of \<open>Int\<close> and
  \<open>Float\<close> is \<open>Float\<close> in either order, for \<open>_num_join\<close>, for the public \<open>join\<close> and for
  the checker's \<open>_join\<close>. The result holds at every recursion depth that lets \<open>unify\<close>
  start at all.
\<close>

theorem numeric_widening_asymmetric:
  "unify (Suc n) (Prim ''Float'') (Prim ''Int'') [] = Some (True, [])
   \<and> unify (Suc n) (Prim ''Int'') (Prim ''Float'') [] = Some (False, [])
   \<and> num_join ''Int'' ''Float'' = Some ''Float''
   \<and> num_join ''Float'' ''Int'' = Some ''Float''
   \<and> join (Prim ''Int'') (Prim ''Float'') = Prim ''Float''
   \<and> join (Prim ''Float'') (Prim ''Int'') = Prim ''Float''
   \<and> infer_join (Prim ''Int'') (Prim ''Float'') = Prim ''Float''
   \<and> infer_join (Prim ''Float'') (Prim ''Int'') = Prim ''Float''"
proof -
  have nj: "num_join ''Int'' ''Float'' = Some ''Float''" "num_join ''Float'' ''Int'' = Some ''Float''"
    by (simp_all add: num_join_def doubleton_eq_iff)
  have u1: "unify (Suc n) (Prim ''Float'') (Prim ''Int'') [] = Some (True, [])"
    by (simp add: unify_body_def nj)
  have u2: "unify (Suc n) (Prim ''Int'') (Prim ''Float'') [] = Some (False, [])"
    by (simp add: unify_body_def nj)
  have j: "join (Prim ''Int'') (Prim ''Float'') = Prim ''Float''"
    "join (Prim ''Float'') (Prim ''Int'') = Prim ''Float''"
    by (simp_all add: join.simps nj)
  have ij: "infer_join (Prim ''Int'') (Prim ''Float'') = Prim ''Float''"
    "infer_join (Prim ''Float'') (Prim ''Int'') = Prim ''Float''"
    by (simp_all add: infer_join.simps doubleton_eq_iff)
  from nj u1 u2 j ij show ?thesis by simp
qed

theorem numeric_widening_asymmetric_witness:
  "unify (Suc 0) (Prim ''Float'') (Prim ''Int'') [] = Some (True, [])
   \<and> unify (Suc 0) (Prim ''Int'') (Prim ''Float'') [] = Some (False, [])
   \<and> num_join ''Int'' ''Float'' = Some ''Float''
   \<and> num_join ''Float'' ''Int'' = Some ''Float''
   \<and> join (Prim ''Int'') (Prim ''Float'') = Prim ''Float''
   \<and> join (Prim ''Float'') (Prim ''Int'') = Prim ''Float''
   \<and> infer_join (Prim ''Int'') (Prim ''Float'') = Prim ''Float''
   \<and> infer_join (Prim ''Float'') (Prim ''Int'') = Prim ''Float''"
  by (rule numeric_widening_asymmetric [of 0])


section \<open>The effect checker (effects.py)\<close>

text \<open>
  An issue is the dictionary \<open>{pointer, code, severity, message}\<close> that \<open>to_dict\<close> builds;
  the message is free text and is left out. A set of effect tags is a set of strings. The
  memo table \<open>memo\<close> of \<open>compute_transitive_effects\<close> is an association list, because
  \<open>check_effects\<close> walks it in insertion order. The checker reads modules that passed the
  schema: where the source would iterate over, or raise on, a value of another shape
  (\<open>functions\<close>, \<open>body\<close> or \<open>effects\<close> that is not a list, an effect tag that is not a
  string), the model reads an empty list and skips the tag.
\<close>

record issue =
  pointer :: string
  code :: string
  severity :: string

definition qual_last :: "string \<Rightarrow> string" where
  "qual_last name = last (split_on (CHR ''.'') name)"

definition BUILTIN_EFFECTS :: "(string \<times> nat \<times> string list) list" where
  "BUILTIN_EFFECTS =
    [(''add'', 2, [''pure'']), (''sub'', 2, [''pure'']), (''mul'', 2, [''pure'']),
     (''div'', 2, [''pure'']),
     (''eq'', 2, [''pure'']), (''neq'', 2, [''pure'']), (''lt'', 2, [''pure'']),
     (''lte'', 2, [''pure'']), (''gt'', 2, [''pure'']), (''gte'', 2, [''pure'']),
     (''and'', 2, [''pure'']), (''or'', 2, [''pure'']), (''not'', 1, [''pure'']),
     (''str_len'', 1, [''pure'']), (''str_concat'', 2, [''pure'']),
     (''str_contains'', 2, [''pure'']),
     (''len'', 1, [''pure'']), (''list_get'', 2, [''pure'']), (''list_set'', 3, [''pure'']),
     (''list_append'', 2, [''pure'']), (''list_concat'', 2, [''pure'']),
     (''list_slice'', 3, [''pure'']), (''list_range'', 1, [''pure'']),
     (''list_sum'', 1, [''pure'']), (''list_mean'', 1, [''pure'']),
     (''list_map'', 2, [''pure'']), (''list_filter'', 2, [''pure'']),
     (''list_reduce'', 3, [''pure'']),
     (''obj_get'', 2, [''pure'']), (''obj_get_or'', 3, [''pure'']), (''obj_has'', 2, [''pure'']),
     (''obj_set'', 3, [''pure'']), (''obj_del'', 2, [''pure'']), (''obj_keys'', 1, [''pure'']),
     (''obj_merge'', 2, [''pure'']),
     (''print'', 1, [''io.print'']), (''http_get'', 1, [''net.http''])]"

definition is_builtin :: "string \<Rightarrow> bool" where
  "is_builtin name = (name \<in> set (map fst BUILTIN_EFFECTS))"

definition builtin_effects :: "string \<Rightarrow> string set" where
  "builtin_effects name = (case map_of BUILTIN_EFFECTS name of None \<Rightarrow> {} | Some ae \<Rightarrow> set (snd ae))"

definition str_items :: "json \<Rightarrow> string list" where
  "str_items v =
     (case v of
        JList xs \<Rightarrow> concat (map (\<lambda>x. case x of JStr s \<Rightarrow> [s] | _ \<Rightarrow> []) xs)
      | _ \<Rightarrow> [])"

definition list_items :: "json \<Rightarrow> json list" where
  "list_items v = (case v of JList xs \<Rightarrow> xs | _ \<Rightarrow> [])"

text \<open>
  \<open>iter_calls\<close> yields, in document order, the callee (last segment of a qualified name)
  and the pointer of every call, and of every function passed by name as first argument of
  \<open>list_map\<close>, \<open>list_filter\<close> or \<open>list_reduce\<close>. A child pointer is the parent pointer, a
  slash and the key or index, without escaping, as in the source.
\<close>

definition call_refs :: "(string \<times> json) list \<Rightarrow> string \<Rightarrow> (string \<times> string) list" where
  "call_refs node ptr =
     (case map_of node ''call'' of
        Some (JDict call) \<Rightarrow>
          (case dict_get call ''fn'' of
             JStr fn \<Rightarrow>
               (qual_last fn, ptr @ ''/call/fn'')
               # (if qual_last fn \<in> {''list_map'', ''list_filter'', ''list_reduce''}
                  then (case map_of call ''args'' of
                          Some (JList (JStr callee # rest)) \<Rightarrow> [(qual_last callee, ptr @ ''/call/args/0'')]
                        | _ \<Rightarrow> [])
                  else [])
           | _ \<Rightarrow> [])
      | _ \<Rightarrow> [])"

fun iter_calls :: "json \<Rightarrow> string \<Rightarrow> (string \<times> string) list"
  and iter_calls_members :: "(string \<times> json) list \<Rightarrow> string \<Rightarrow> (string \<times> string) list"
  and iter_calls_items :: "json list \<Rightarrow> nat \<Rightarrow> string \<Rightarrow> (string \<times> string) list"
where
  "iter_calls (JDict node) ptr = call_refs node ptr @ iter_calls_members node ptr"
| "iter_calls (JList xs) ptr = iter_calls_items xs 0 ptr"
| "iter_calls v ptr = []"
| "iter_calls_members [] ptr = []"
| "iter_calls_members (m # ms) ptr =
     iter_calls (snd m) (ptr @ ''/'' @ fst m) @ iter_calls_members ms ptr"
| "iter_calls_items [] i ptr = []"
| "iter_calls_items (v # vs) i ptr =
     iter_calls v (ptr @ ''/'' @ str_of_nat i) @ iter_calls_items vs (Suc i) ptr"

record fn_index =
  user_funcs :: "(string \<times> (string \<times> json) list) list"
  func_index :: "(string \<times> nat) list"

fun index_functions :: "json list \<Rightarrow> nat \<Rightarrow> fn_index \<Rightarrow> fn_index" where
  "index_functions [] i ix = ix"
| "index_functions (f # fs) i ix =
     index_functions fs (Suc i)
       (case f of
          JDict d \<Rightarrow>
            (case dict_get d ''name'' of
               JStr name \<Rightarrow> \<lparr> user_funcs = AList.update name d (user_funcs ix),
                               func_index = AList.update name i (func_index ix) \<rparr>
             | _ \<Rightarrow> ix)
        | _ \<Rightarrow> ix)"

definition user_function_index :: "(string \<times> json) list \<Rightarrow> fn_index" where
  "user_function_index modl =
     index_functions (list_items (dict_get modl ''functions'')) 0
       \<lparr> user_funcs = [], func_index = [] \<rparr>"

definition declared_effects :: "(string \<times> json) list \<Rightarrow> string set" where
  "declared_effects fn = set (str_items (dict_get fn ''effects''))"

definition effects_or_pure :: "(string \<times> json) list \<Rightarrow> string set" where
  "effects_or_pure fn = (if declared_effects fn = {} then {''pure''} else declared_effects fn)"

text \<open>
  The local function \<open>visit\<close> shares \<open>memo\<close>, \<open>issues\<close> and the set \<open>visiting\<close> with its
  recursive calls. \<open>memo\<close> and \<open>issues\<close> only grow and are threaded through as a state;
  \<open>visiting\<close> is extended on entry and restored on exit of a function, so it is an
  argument. \<open>visit_calls\<close> is the loop over the calls of one body, accumulating \<open>required\<close>.
  Every recursive call either enters a user function that is not yet in \<open>visiting\<close> or
  moves on in the list of calls, which is the termination argument.
\<close>

type_synonym visit_state = "(string \<times> string set) list \<times> issue list"

definition body_calls :: "fn_index \<Rightarrow> string \<Rightarrow> (string \<times> json) list \<Rightarrow> (string \<times> string) list" where
  "body_calls ix fn_name fn =
     iter_calls_items (list_items (dict_get fn ''body'')) 0
       (''/functions/'' @ str_of_nat (the (map_of (func_index ix) fn_name)) @ ''/body'')"

function visit :: "fn_index \<Rightarrow> string set \<Rightarrow> string \<Rightarrow> visit_state \<Rightarrow> string set \<times> visit_state"
  and visit_calls :: "fn_index \<Rightarrow> string set \<Rightarrow> (string \<times> string) list \<Rightarrow> string set \<times> visit_state
      \<Rightarrow> string set \<times> visit_state"
where
  "visit ix visiting fn_name st =
     (case map_of (fst st) fn_name of
        Some s \<Rightarrow> (s, st)
      | None \<Rightarrow>
         if fn_name \<in> visiting
         then (case map_of (user_funcs ix) fn_name of
                 None \<Rightarrow> ({''pure''}, (AList.update fn_name {''pure''} (fst st), snd st))
               | Some fn \<Rightarrow> (effects_or_pure fn, (AList.update fn_name (effects_or_pure fn) (fst st), snd st)))
         else if is_builtin fn_name
         then (builtin_effects fn_name, (AList.update fn_name (builtin_effects fn_name) (fst st), snd st))
         else (case map_of (user_funcs ix) fn_name of
                 None \<Rightarrow> ({}, (AList.update fn_name {} (fst st), snd st))
               | Some fn \<Rightarrow>
                  (case visit_calls ix (insert fn_name visiting) (body_calls ix fn_name fn)
                          (effects_or_pure fn, st) of
                     (required, st') \<Rightarrow> (required, (AList.update fn_name required (fst st'), snd st')))))"
| "visit_calls ix visiting [] acc = acc"
| "visit_calls ix visiting (c # cs) acc =
     (if is_builtin (fst c) \<or> fst c \<in> set (map fst (user_funcs ix))
      then (case visit ix visiting (fst c) (snd acc) of
              (eff, st') \<Rightarrow> visit_calls ix visiting cs (fst acc \<union> eff, st'))
      else visit_calls ix visiting cs
             (fst acc, (fst (snd acc),
                snd (snd acc) @ [\<lparr> pointer = snd c, code = ''UnknownFunctionCall'', severity = ''error'' \<rparr>])))"
  by pat_completeness auto
termination
proof (relation "inv_image (less_than <*lex*> less_than)
     (\<lambda>x. case x of
        Inl (ix, visiting, fn_name, st) \<Rightarrow> (card (set (map fst (user_funcs ix)) - visiting), 0)
      | Inr (ix, visiting, cs, acc) \<Rightarrow> (card (set (map fst (user_funcs ix)) - visiting), Suc (length cs)))",
    goal_cases)
  case 1
  show ?case by (rule wf_inv_image) (rule wf_lex_prod; rule wf_less_than)
next
  case (2 ix visiting fn_name st fn)
  from 2(4) have "fn_name \<in> fst ` set (user_funcs ix)"
    by (metis map_of_eq_None_iff option.distinct(1))
  with 2(2) have "fst ` set (user_funcs ix) - insert fn_name visiting \<subset> fst ` set (user_funcs ix) - visiting"
    by blast
  then have "card (fst ` set (user_funcs ix) - insert fn_name visiting) < card (fst ` set (user_funcs ix) - visiting)"
    by (intro psubset_card_mono) simp_all
  then show ?case by simp
qed simp_all

declare visit.simps [simp del] visit_calls.simps [simp del]

definition compute_transitive_effects :: "(string \<times> json) list \<Rightarrow> visit_state" where
  "compute_transitive_effects modl =
     (let ix = user_function_index modl
      in fold (\<lambda>name st. snd (visit ix {} name st)) (map fst (user_funcs ix)) ([], []))"

definition declaration_issues :: "fn_index \<Rightarrow> string \<times> string set \<Rightarrow> issue list" where
  "declaration_issues ix entry =
     (case entry of (fn_name, required) \<Rightarrow>
        if is_builtin fn_name then []
        else (case map_of (user_funcs ix) fn_name of
                None \<Rightarrow> []
              | Some fn \<Rightarrow>
                 (let ptr = ''/functions/'' @ str_of_nat (the (map_of (func_index ix) fn_name)) @ ''/effects'';
                      declared = effects_or_pure fn
                  in (if required - declared \<noteq> {}
                      then [\<lparr> pointer = ptr, code = ''MissingEffect'', severity = ''error'' \<rparr>]
                      else [])
                     @ (if ''pure'' \<in> declared \<and> card declared > 1
                        then [\<lparr> pointer = ptr, code = ''NotPure'', severity = ''warning'' \<rparr>]
                        else []))))"

definition check_effects :: "(string \<times> json) list \<Rightarrow> issue list" where
  "check_effects modl =
     (let ix = user_function_index modl;
          res = compute_transitive_effects modl
      in snd res @ concat (map (declaration_issues ix) (fst res)))"

subsection \<open>What a memo entry guarantees\<close>

text \<open>
  \<open>callee_base\<close> is the set that \<open>visit\<close> returns at the least for a callee: the fixed set
  of a builtin, the declared set (\<open>{pure}\<close> if none) of a user function, nothing for an
  unknown name. An entry of \<open>memo\<close> for a builtin is its fixed set; an entry for a user
  function contains its declared set and, once the function has left \<open>visiting\<close>, the
  \<open>callee_base\<close> of everything its body calls.
\<close>

definition known :: "fn_index \<Rightarrow> string \<Rightarrow> bool" where
  "known ix g = (is_builtin g \<or> g \<in> set (map fst (user_funcs ix)))"

definition callee_base :: "fn_index \<Rightarrow> string \<Rightarrow> string set" where
  "callee_base ix g =
     (if is_builtin g then builtin_effects g
      else (case map_of (user_funcs ix) g of None \<Rightarrow> {} | Some gn \<Rightarrow> effects_or_pure gn))"

definition entry_ok ::
  "fn_index \<Rightarrow> string set \<Rightarrow> (string \<times> string set) list \<Rightarrow> string \<Rightarrow> string set \<Rightarrow> bool" where
  "entry_ok ix V memo k S =
     (if is_builtin k then S = builtin_effects k
      else (case map_of (user_funcs ix) k of
              None \<Rightarrow> S = {}
            | Some fn \<Rightarrow>
                effects_or_pure fn \<subseteq> S
                \<and> (k \<notin> V \<longrightarrow>
                     (\<forall>c \<in> set (body_calls ix k fn).
                        callee_base ix (fst c) \<subseteq> S
                        \<and> (known ix (fst c) \<longrightarrow> map_of memo (fst c) \<noteq> None)))))"

definition memo_ok :: "fn_index \<Rightarrow> string set \<Rightarrow> (string \<times> string set) list \<Rightarrow> bool" where
  "memo_ok ix V memo = (\<forall>k S. map_of memo k = Some S \<longrightarrow> entry_ok ix V memo k S)"

definition dom_le :: "(string \<times> string set) list \<Rightarrow> (string \<times> string set) list \<Rightarrow> bool" where
  "dom_le m m' = (\<forall>k. map_of m k \<noteq> None \<longrightarrow> map_of m' k \<noteq> None)"

definition stack_ok :: "fn_index \<Rightarrow> string set \<Rightarrow> bool" where
  "stack_ok ix V = (\<forall>v\<in>V. \<not> is_builtin v \<and> map_of (user_funcs ix) v \<noteq> None)"

definition visit_post ::
  "fn_index \<Rightarrow> string set \<Rightarrow> string \<Rightarrow> visit_state \<Rightarrow> string set \<times> visit_state \<Rightarrow> bool" where
  "visit_post ix V fn st res =
     (memo_ok ix V (fst (snd res)) \<and> map_of (fst (snd res)) fn \<noteq> None
      \<and> callee_base ix fn \<subseteq> fst res \<and> dom_le (fst st) (fst (snd res)))"

definition calls_post ::
  "fn_index \<Rightarrow> string set \<Rightarrow> (string \<times> string) list \<Rightarrow> string set \<times> visit_state
     \<Rightarrow> string set \<times> visit_state \<Rightarrow> bool" where
  "calls_post ix V cs acc res =
     (memo_ok ix V (fst (snd res)) \<and> fst acc \<subseteq> fst res
      \<and> (\<forall>c \<in> set cs. callee_base ix (fst c) \<subseteq> fst res
            \<and> (known ix (fst c) \<longrightarrow> map_of (fst (snd res)) (fst c) \<noteq> None))
      \<and> dom_le (fst (snd acc)) (fst (snd res)))"

lemma dom_le_refl: "dom_le m m"
  by (simp add: dom_le_def)

lemma dom_le_trans: "dom_le a b \<Longrightarrow> dom_le b c \<Longrightarrow> dom_le a c"
  by (simp add: dom_le_def)

lemma dom_le_update: "dom_le m (AList.update k S m)"
  by (simp add: dom_le_def update_conv')

lemma entry_ok_mono:
  assumes "entry_ok ix V m k S" and "k \<notin> V' \<Longrightarrow> k \<notin> V" and "dom_le m m'"
  shows "entry_ok ix V' m' k S"
  using assms unfolding entry_ok_def dom_le_def
  by (force split: option.splits)

lemma entry_base: "entry_ok ix V m k S \<Longrightarrow> callee_base ix k \<subseteq> S"
  unfolding entry_ok_def callee_base_def by (auto split: option.splits if_splits)

lemma memo_ok_mono: "memo_ok ix V m \<Longrightarrow> V \<subseteq> V' \<Longrightarrow> memo_ok ix V' m"
  unfolding memo_ok_def using entry_ok_mono [OF _ _ dom_le_refl] by blast

lemma memo_ok_update:
  assumes "memo_ok ix V m" and "V - {k} \<subseteq> V'" and "entry_ok ix V' (AList.update k S m) k S"
  shows "memo_ok ix V' (AList.update k S m)"
  unfolding memo_ok_def
proof (intro allI impI)
  fix k' S'
  assume a: "map_of (AList.update k S m) k' = Some S'"
  show "entry_ok ix V' (AList.update k S m) k' S'"
  proof (cases "k' = k")
    case True
    with a have "S' = S" by (simp add: update_conv')
    with True assms(3) show ?thesis by simp
  next
    case False
    with a have "map_of m k' = Some S'" by (simp add: update_conv')
    with assms(1) have "entry_ok ix V m k' S'" by (simp add: memo_ok_def)
    then show ?thesis
    proof (rule entry_ok_mono)
      show "k' \<notin> V' \<Longrightarrow> k' \<notin> V" using False assms(2) by blast
      show "dom_le m (AList.update k S m)" by (rule dom_le_update)
    qed
  qed
qed

lemma visit_ok:
  "memo_ok ix V (fst st) \<Longrightarrow> stack_ok ix V
     \<Longrightarrow> visit_post ix V fn st (visit ix V fn st)"
  and visit_calls_ok:
  "memo_ok ix V (fst (snd acc)) \<Longrightarrow> stack_ok ix V
     \<Longrightarrow> calls_post ix V cs acc (visit_calls ix V cs acc)"
proof (induction ix V fn st and ix V cs acc rule: visit_visit_calls.induct)
  case (1 ix V fn st)
  note ok = "1.prems"(1) and nb = "1.prems"(2)
  show ?case
  proof (cases "map_of (fst st) fn")
    case (Some S)
    with ok have "entry_ok ix V (fst st) fn S" by (simp add: memo_ok_def)
    then have "callee_base ix fn \<subseteq> S" by (rule entry_base)
    with Some ok show ?thesis
      by (simp add: visit.simps visit_post_def dom_le_refl)
  next
    case None
    show ?thesis
    proof (cases "fn \<in> V")
      case True
      with nb have nbf: "\<not> is_builtin fn" and "map_of (user_funcs ix) fn \<noteq> None"
        by (auto simp: stack_ok_def)
      then obtain f where f: "map_of (user_funcs ix) fn = Some f" by blast
      define D where "D = effects_or_pure f"
      have v: "visit ix V fn st = (D, (AList.update fn D (fst st), snd st))"
        using None True f by (simp add: visit.simps D_def)
      have e: "entry_ok ix V (AList.update fn D (fst st)) fn D"
        using nbf True f by (simp add: entry_ok_def D_def)
      have "memo_ok ix V (AList.update fn D (fst st))"
        using ok _ e by (rule memo_ok_update) blast
      moreover have "callee_base ix fn \<subseteq> D" using e by (rule entry_base)
      ultimately show ?thesis
        unfolding v by (simp add: visit_post_def dom_le_update update_conv')
    next
      case False
      show ?thesis
      proof (cases "is_builtin fn")
        case True
        define D where "D = builtin_effects fn"
        have v: "visit ix V fn st = (D, (AList.update fn D (fst st), snd st))"
          using None False True by (simp add: visit.simps D_def)
        have e: "entry_ok ix V (AList.update fn D (fst st)) fn D"
          using True by (simp add: entry_ok_def D_def)
        have "memo_ok ix V (AList.update fn D (fst st))"
          using ok _ e by (rule memo_ok_update) blast
        moreover have "callee_base ix fn \<subseteq> D" using e by (rule entry_base)
        ultimately show ?thesis
          unfolding v by (simp add: visit_post_def dom_le_update update_conv')
      next
        case nbf: False
        show ?thesis
        proof (cases "map_of (user_funcs ix) fn")
          case nu: None
          have v: "visit ix V fn st = ({}, (AList.update fn {} (fst st), snd st))"
            using None False nbf nu by (simp add: visit.simps)
          have e: "entry_ok ix V (AList.update fn {} (fst st)) fn {}"
            using nbf nu by (simp add: entry_ok_def)
          have "memo_ok ix V (AList.update fn {} (fst st))"
            using ok _ e by (rule memo_ok_update) blast
          moreover have "callee_base ix fn \<subseteq> {}" using e by (rule entry_base)
          ultimately show ?thesis
            unfolding v by (simp add: visit_post_def dom_le_update update_conv')
        next
          case (Some f)
          define res where
            "res = visit_calls ix (insert fn V) (body_calls ix fn f) (effects_or_pure f, st)"
          have ok': "memo_ok ix (insert fn V) (fst (snd (effects_or_pure f, st)))"
            using ok by (auto intro: memo_ok_mono)
          have nb': "stack_ok ix (insert fn V)" using nb nbf Some by (simp add: stack_ok_def)
          have post: "calls_post ix (insert fn V) (body_calls ix fn f) (effects_or_pure f, st) res"
            unfolding res_def by (rule "1.IH" [OF None False nbf Some ok' nb'])
          have v: "visit ix V fn st = (fst res, (AList.update fn (fst res) (fst (snd res)), snd (snd res)))"
            using None False nbf Some
            by (simp add: visit.simps res_def [symmetric] split: prod.splits)
          have e: "entry_ok ix V (AList.update fn (fst res) (fst (snd res))) fn (fst res)"
            using nbf Some post
            by (auto simp: entry_ok_def calls_post_def update_conv')
          have m: "memo_ok ix V (AList.update fn (fst res) (fst (snd res)))"
          proof (rule memo_ok_update)
            show "memo_ok ix (insert fn V) (fst (snd res))" using post by (simp add: calls_post_def)
            show "insert fn V - {fn} \<subseteq> V" by blast
            show "entry_ok ix V (AList.update fn (fst res) (fst (snd res))) fn (fst res)" by (rule e)
          qed
          have "dom_le (fst st) (fst (snd res))" using post by (simp add: calls_post_def)
          then have d: "dom_le (fst st) (AList.update fn (fst res) (fst (snd res)))"
            using dom_le_update by (rule dom_le_trans)
          have "callee_base ix fn \<subseteq> fst res" using e by (rule entry_base)
          with m d show ?thesis
            unfolding v by (simp add: visit_post_def update_conv')
        qed
      qed
    qed
  qed
next
  case (2 ix V acc)
  then show ?case
    by (simp add: visit_calls.simps calls_post_def dom_le_refl)
next
  case (3 ix V c cs acc)
  note ok = "3.prems"(1) and nb = "3.prems"(2)
  show ?case
  proof (cases "is_builtin (fst c) \<or> fst c \<in> set (map fst (user_funcs ix))")
    case True
    obtain eff st' where r: "visit ix V (fst c) (snd acc) = (eff, st')"
      by (cases "visit ix V (fst c) (snd acc)")
    have p1: "visit_post ix V (fst c) (snd acc) (eff, st')"
      using "3.IH"(1) [OF True ok nb] by (simp add: r)
    then have ok1: "memo_ok ix V (fst (snd (fst acc \<union> eff, st')))"
      by (simp add: visit_post_def)
    have p2: "calls_post ix V cs (fst acc \<union> eff, st') (visit_calls ix V cs (fst acc \<union> eff, st'))"
      by (rule "3.IH"(2) [OF True r [symmetric] ok1 nb])
    have v: "visit_calls ix V (c # cs) acc = visit_calls ix V cs (fst acc \<union> eff, st')"
      using True r by (simp add: visit_calls.simps)
    from p1 p2 show ?thesis
      unfolding v calls_post_def visit_post_def dom_le_def by auto
  next
    case False
    define acc' where "acc' = (fst acc, (fst (snd acc),
        snd (snd acc) @ [\<lparr> pointer = snd c, code = ''UnknownFunctionCall'', severity = ''error'' \<rparr>]))"
    have ok1: "memo_ok ix V (fst (snd acc'))" using ok by (simp add: acc'_def)
    have p: "calls_post ix V cs acc' (visit_calls ix V cs acc')"
      unfolding acc'_def by (rule "3.IH"(3) [OF False ok1 [unfolded acc'_def] nb])
    have v: "visit_calls ix V (c # cs) acc = visit_calls ix V cs acc'"
      using False by (simp add: visit_calls.simps acc'_def)
    from False have "map_of (user_funcs ix) (fst c) = None"
      by (simp add: map_of_eq_None_iff)
    with False have b: "callee_base ix (fst c) = {}"
      by (simp add: callee_base_def)
    from p b False show ?thesis
      unfolding v calls_post_def known_def by (auto simp: acc'_def)
  qed
qed

lemma fold_visit_ok:
  "memo_ok ix {} (fst st) \<Longrightarrow>
     memo_ok ix {} (fst (fold (\<lambda>name st. snd (visit ix {} name st)) names st))
     \<and> dom_le (fst st) (fst (fold (\<lambda>name st. snd (visit ix {} name st)) names st))
     \<and> (\<forall>n\<in>set names. map_of (fst (fold (\<lambda>name st. snd (visit ix {} name st)) names st)) n \<noteq> None)"
proof (induction names arbitrary: st)
  case Nil
  then show ?case by (simp add: dom_le_refl)
next
  case (Cons n names)
  have "stack_ok ix {}" by (simp add: stack_ok_def)
  with Cons.prems have p: "visit_post ix {} n st (visit ix {} n st)" by (rule visit_ok)
  then have "memo_ok ix {} (fst (snd (visit ix {} n st)))" by (simp add: visit_post_def)
  from Cons.IH [OF this] p show ?case
    unfolding visit_post_def dom_le_def by auto
qed

lemma compute_memo_ok:
  "memo_ok (user_function_index modl) {} (fst (compute_transitive_effects modl))"
  and compute_covers:
  "\<forall>n\<in>set (map fst (user_funcs (user_function_index modl))).
      map_of (fst (compute_transitive_effects modl)) n \<noteq> None"
proof -
  have "memo_ok (user_function_index modl) {} (fst (([], []) :: visit_state))"
    by (simp add: memo_ok_def)
  from fold_visit_ok [OF this]
  show "memo_ok (user_function_index modl) {} (fst (compute_transitive_effects modl))"
    and "\<forall>n\<in>set (map fst (user_funcs (user_function_index modl))).
      map_of (fst (compute_transitive_effects modl)) n \<noteq> None"
    unfolding compute_transitive_effects_def Let_def by blast+
qed

lemma missing_effect_reported:
  assumes "map_of (fst (compute_transitive_effects modl)) h = Some S"
    and "\<not> is_builtin h"
    and "map_of (user_funcs (user_function_index modl)) h = Some hn"
    and "list_all (\<lambda>i. code i \<noteq> ''MissingEffect'') (check_effects modl)"
  shows "S \<subseteq> effects_or_pure hn"
proof (rule ccontr)
  assume n: "\<not> S \<subseteq> effects_or_pure hn"
  from assms(1) have "(h, S) \<in> set (fst (compute_transitive_effects modl))"
    by (rule map_of_SomeD)
  moreover from n assms(2,3)
  have "\<exists>i \<in> set (declaration_issues (user_function_index modl) (h, S)). code i = ''MissingEffect''"
    by (auto simp: declaration_issues_def Let_def)
  ultimately have "\<exists>i \<in> set (check_effects modl). code i = ''MissingEffect''"
    unfolding check_effects_def Let_def by auto
  with assms(4) show False by (auto simp: list_all_iff)
qed

definition cyclic_module :: "(string \<times> json) list" where
  "cyclic_module =
     [(''module'', JStr ''m''), (''version'', JStr ''1''),
      (''functions'', JList
        [JDict [(''name'', JStr ''f''), (''params'', JList []), (''effects'', JList [JStr ''pure'']),
           (''body'', JList
              [JDict [(''expr'', JDict [(''call'', JDict [(''fn'', JStr ''g''), (''args'', JList [])])])],
               JDict [(''expr'', JDict [(''call'',
                  JDict [(''fn'', JStr ''print''), (''args'', JList [JStr ''x''])])])]])],
         JDict [(''name'', JStr ''g''), (''params'', JList []), (''effects'', JList [JStr ''pure'']),
           (''body'', JList
              [JDict [(''expr'', JDict [(''call'', JDict [(''fn'', JStr ''f''), (''args'', JList [])])])]])]])]"

lemmas effects_eval = user_function_index_def list_items_def dict_get_def
  compute_transitive_effects_def visit.simps visit_calls.simps body_calls_def call_refs_def
  qual_last_def is_builtin_def builtin_effects_def BUILTIN_EFFECTS_def effects_or_pure_def
  declared_effects_def str_items_def check_effects_def declaration_issues_def Let_def
  split_on_def str_of_nat.simps digit_chars_def

definition looping_printer :: "(string \<times> json) list" where
  "looping_printer =
     [(''module'', JStr ''m''), (''version'', JStr ''1''),
      (''functions'', JList
        [JDict [(''name'', JStr ''f''), (''params'', JList []), (''effects'', JList [JStr ''io.print'']),
           (''body'', JList
              [JDict [(''expr'', JDict [(''call'',
                  JDict [(''fn'', JStr ''print''), (''args'', JList [JStr ''x''])])])],
               JDict [(''expr'', JDict [(''call'', JDict [(''fn'', JStr ''g''), (''args'', JList [])])])]])],
         JDict [(''name'', JStr ''g''), (''params'', JList []), (''effects'', JList [JStr ''io.print'']),
           (''body'', JList
              [JDict [(''expr'', JDict [(''call'', JDict [(''fn'', JStr ''f''), (''args'', JList [])])])]])]])]"

section \<open>Effect monotonicity (C2)\<close>

text \<open>
  C2, as stated for every module, fails on mutual recursion. \<open>f\<close> declares \<open>pure\<close> and calls
  \<open>g\<close> and then \<open>print\<close>; \<open>g\<close> declares \<open>pure\<close> and calls \<open>f\<close>. While \<open>f\<close> is being visited,
  \<open>g\<close> finds \<open>f\<close> in \<open>visiting\<close> and takes the declared set of \<open>f\<close>, so the map gives
  \<open>{pure}\<close> to \<open>g\<close> and \<open>{pure, io.print}\<close> to \<open>f\<close>: \<open>g\<close> calls \<open>f\<close>, and the set of \<open>g\<close> does
  not contain the set of \<open>f\<close>.
\<close>

theorem recursion_breaks_monotonicity:
  "fst (compute_transitive_effects cyclic_module)
     = [(''f'', {''pure'', ''io.print''}), (''g'', {''pure''}), (''print'', {''io.print''})]
   \<and> map fst (body_calls (user_function_index cyclic_module) ''g''
        (the (map_of (user_funcs (user_function_index cyclic_module)) ''g''))) = [''f'']
   \<and> \<not> {''pure'', ''io.print''} \<subseteq> {''pure''}"
  by (simp add: cyclic_module_def effects_eval)

text \<open>
  C2, amended. Let \<open>f\<close> be a user function whose name is not the name of a builtin, and \<open>g\<close>
  a function that the body of \<open>f\<close> calls or passes by name to \<open>list_map\<close>, \<open>list_filter\<close> or
  \<open>list_reduce\<close>. Then \<open>effects_map(f)\<close> contains the fixed set of \<open>g\<close> if \<open>g\<close> is a builtin,
  and the declared set of \<open>g\<close> (\<open>{pure}\<close> if it declares none) if \<open>g\<close> is a user function; and
  if \<open>check_effects\<close> reports no \<open>MissingEffect\<close> for the module, then \<open>effects_map(f)\<close>
  contains \<open>effects_map(g)\<close>.
\<close>

theorem callers_cover_callee_declarations:
  assumes "compute_transitive_effects modl = (effects_map, issues)"
    and "map_of (user_funcs (user_function_index modl)) f = Some fn"
    and "\<not> is_builtin f"
    and "g \<in> set (map fst (body_calls (user_function_index modl) f fn))"
  shows "\<exists>Sf. map_of effects_map f = Some Sf
           \<and> callee_base (user_function_index modl) g \<subseteq> Sf
           \<and> (list_all (\<lambda>i. code i \<noteq> ''MissingEffect'') (check_effects modl)
                \<longrightarrow> (\<forall>Sg. map_of effects_map g = Some Sg \<longrightarrow> Sg \<subseteq> Sf))"
proof -
  let ?ix = "user_function_index modl"
  have em: "fst (compute_transitive_effects modl) = effects_map" using assms(1) by simp
  have ok: "memo_ok ?ix {} effects_map" using compute_memo_ok [of modl] by (simp add: em)
  from assms(2) have "f \<in> set (map fst (user_funcs ?ix))"
    by (metis map_of_eq_None_iff option.distinct(1) set_map)
  with compute_covers [of modl] obtain Sf where Sf: "map_of effects_map f = Some Sf"
    by (auto simp: em)
  with ok have "entry_ok ?ix {} effects_map f Sf" by (simp add: memo_ok_def)
  with assms(2,3,4) have base: "callee_base ?ix g \<subseteq> Sf"
    by (auto simp: entry_ok_def)
  have "Sg \<subseteq> Sf"
    if nm: "list_all (\<lambda>i. code i \<noteq> ''MissingEffect'') (check_effects modl)"
      and Sg: "map_of effects_map g = Some Sg" for Sg
  proof -
    from ok Sg have e: "entry_ok ?ix {} effects_map g Sg" by (simp add: memo_ok_def)
    show ?thesis
    proof (cases "is_builtin g")
      case True
      with e base show ?thesis by (simp add: entry_ok_def callee_base_def)
    next
      case False
      show ?thesis
      proof (cases "map_of (user_funcs ?ix) g")
        case None
        with e False show ?thesis by (simp add: entry_ok_def)
      next
        case (Some gn)
        from Sg have "map_of (fst (compute_transitive_effects modl)) g = Some Sg" by (simp add: em)
        from missing_effect_reported [OF this False Some nm] have "Sg \<subseteq> effects_or_pure gn" .
        with base False Some show ?thesis by (simp add: callee_base_def)
      qed
    qed
  qed
  with Sf base show ?thesis by blast
qed

theorem callers_cover_callee_declarations_witness:
  "compute_transitive_effects looping_printer
     = ([(''print'', {''io.print''}), (''f'', {''io.print''}), (''g'', {''io.print''})], [])
   \<and> check_effects looping_printer = []
   \<and> (\<exists>Sf Sg. map_of (fst (compute_transitive_effects looping_printer)) ''f'' = Some Sf
          \<and> map_of (fst (compute_transitive_effects looping_printer)) ''g'' = Some Sg
          \<and> callee_base (user_function_index looping_printer) ''g'' \<subseteq> Sf \<and> Sg \<subseteq> Sf)"
proof -
  let ?ix = "user_function_index looping_printer"
  let ?fn = "the (map_of (user_funcs ?ix) ''f'')"
  have c: "compute_transitive_effects looping_printer
     = ([(''print'', {''io.print''}), (''f'', {''io.print''}), (''g'', {''io.print''})], [])"
    by (simp add: looping_printer_def effects_eval)
  have u: "map_of (user_funcs ?ix) ''f'' = Some ?fn"
    by (simp add: looping_printer_def effects_eval)
  have nb: "\<not> is_builtin ''f''"
    by (simp add: effects_eval)
  have g: "''g'' \<in> set (map fst (body_calls ?ix ''f'' ?fn))"
    by (simp add: looping_printer_def effects_eval)
  have ce: "check_effects looping_printer = []"
    by (simp add: looping_printer_def effects_eval)
  from callers_cover_callee_declarations [OF c u nb g]
  obtain Sf where "map_of [(''print'', {''io.print''}), (''f'', {''io.print''}), (''g'', {''io.print''})] ''f'' = Some Sf"
    and "callee_base ?ix ''g'' \<subseteq> Sf"
    and "\<forall>Sg. map_of [(''print'', {''io.print''}), (''f'', {''io.print''}), (''g'', {''io.print''})] ''g'' = Some Sg
           \<longrightarrow> Sg \<subseteq> Sf"
    unfolding ce by auto
  then show ?thesis
    unfolding c ce by auto
qed

section \<open>The repair suggester (repair_suggest.py)\<close>

text \<open>
  \<open>suggest_patches\<close> runs three loops over the issues, one per repairable code, and removes
  duplicate patches, keeping the first. A patch is the JSON object that \<open>apply_patch\<close>
  reads. \<open>int\<close> may raise on a pointer segment that \<open>isdigit\<close> accepts, and the index of a
  function may be out of range, so the result is a sum. Two patches are compared as values
  (the source compares their serialisations with sorted keys, which agree for the patches
  built here).
\<close>

definition strip_char :: "char \<Rightarrow> string \<Rightarrow> string" where
  "strip_char c s = rev (dropWhile (\<lambda>x. x = c) (rev (dropWhile (\<lambda>x. x = c) s)))"

definition pointer_parts :: "string \<Rightarrow> string list" where
  "pointer_parts ptr = filter (\<lambda>p. p \<noteq> []) (split_on (CHR ''/'') (strip_char (CHR ''/'') ptr))"

definition index_of :: "'a \<Rightarrow> 'a list \<Rightarrow> nat" where
  "index_of x xs = length (takeWhile (\<lambda>y. y \<noteq> x) xs)"

fun collect :: "('a \<Rightarrow> error + 'b list) \<Rightarrow> 'a list \<Rightarrow> error + 'b list" where
  "collect f [] = Inr []"
| "collect f (x # xs) =
     (case f x of
        Inl e \<Rightarrow> Inl e
      | Inr ys \<Rightarrow> (case collect f xs of Inl e \<Rightarrow> Inl e | Inr zs \<Rightarrow> Inr (ys @ zs)))"

definition function_at :: "(string \<times> json) list \<Rightarrow> nat \<Rightarrow> error + json" where
  "function_at modl fi =
     (let fs = list_items (dict_get modl ''functions'')
      in if fi < length fs then Inr (fs ! fi) else Inl IndexError)"

definition missing_return_patches :: "issue \<Rightarrow> error + json list" where
  "missing_return_patches it =
     (if code it = ''MissingReturn''
      then (let parts = pointer_parts (pointer it)
            in if length parts \<ge> 2 \<and> parts ! 0 = ''functions'' \<and> isdigit (parts ! 1)
               then (case py_int (parts ! 1) of
                       Inl e \<Rightarrow> Inl e
                     | Inr fi \<Rightarrow>
                         Inr [JDict [(''op'', JStr ''add''),
                                (''path'', JStr (''/functions/'' @ str_of_nat fi @ ''/body/-'')),
                                (''value'', JDict [(''return'', JNull)])]])
               else Inr [])
      else Inr [])"

definition not_pure_patches :: "(string \<times> json) list \<Rightarrow> issue \<Rightarrow> error + json list" where
  "not_pure_patches modl it =
     (if code it = ''NotPure''
      then (let parts = pointer_parts (pointer it)
            in if length parts \<ge> 3 \<and> parts ! 0 = ''functions'' \<and> isdigit (parts ! 1)
                  \<and> parts ! 2 = ''effects''
               then (case py_int (parts ! 1) of
                       Inl e \<Rightarrow> Inl e
                     | Inr fi \<Rightarrow>
                        (case function_at modl fi of
                           Inl e \<Rightarrow> Inl e
                         | Inr fn \<Rightarrow>
                            (case (case fn of JDict d \<Rightarrow> dict_get d ''effects'' | _ \<Rightarrow> JList []) of
                               JList eff \<Rightarrow>
                                 if JStr ''pure'' \<in> set eff \<and> length eff > 1
                                 then Inr [JDict [(''op'', JStr ''remove''),
                                        (''path'', JStr (''/functions/'' @ str_of_nat fi @ ''/effects/''
                                                         @ str_of_nat (index_of (JStr ''pure'') eff)))]]
                                 else Inr []
                             | _ \<Rightarrow> Inr [])))
               else Inr [])
      else Inr [])"

definition extend_effects :: "json list \<Rightarrow> string list \<Rightarrow> json list" where
  "extend_effects declared missing =
     fold (\<lambda>m new_eff. if JStr m \<in> set new_eff then new_eff else new_eff @ [JStr m]) missing declared"

definition undeclared :: "string set \<Rightarrow> json list \<Rightarrow> string set" where
  "undeclared required declared = {m \<in> required. JStr m \<notin> set declared}"

definition missing_effect_patches ::
  "(string \<times> json) list \<Rightarrow> (string \<times> string set) list \<Rightarrow> issue \<Rightarrow> error + json list" where
  "missing_effect_patches modl effects_map it =
     (if code it = ''MissingEffect''
      then (let parts = pointer_parts (pointer it)
            in if length parts \<ge> 3 \<and> parts ! 0 = ''functions'' \<and> isdigit (parts ! 1)
                  \<and> parts ! 2 = ''effects''
               then (case py_int (parts ! 1) of
                       Inl e \<Rightarrow> Inl e
                     | Inr fi \<Rightarrow>
                        (case function_at modl fi of
                           Inl e \<Rightarrow> Inl e
                         | Inr (JDict fn) \<Rightarrow>
                            (case dict_get fn ''name'' of
                               JStr name \<Rightarrow>
                                 (let required = (case map_of effects_map name of None \<Rightarrow> {} | Some r \<Rightarrow> r);
                                      declared_list = (case dict_get fn ''effects'' of
                                                         JList xs \<Rightarrow> xs | _ \<Rightarrow> []);
                                      declared = (if declared_list = [] then [JStr ''pure''] else declared_list);
                                      missing = undeclared required declared
                                  in if missing = {} then Inr []
                                     else (let new_eff = extend_effects declared (sorted_list_of_set missing);
                                               new_eff' = (if JStr ''pure'' \<in> set new_eff \<and> length new_eff > 1
                                                           then filter (\<lambda>e. e \<noteq> JStr ''pure'') new_eff
                                                           else new_eff)
                                           in Inr [JDict [(''op'', JStr ''replace''),
                                                 (''path'', JStr (''/functions/'' @ str_of_nat fi @ ''/effects'')),
                                                 (''value'', JList new_eff')]]))
                             | _ \<Rightarrow> Inr [])
                         | Inr _ \<Rightarrow> Inr []))
               else Inr [])
      else Inr [])"

fun uniq_patches :: "json list \<Rightarrow> json list \<Rightarrow> json list" where
  "uniq_patches seen [] = []"
| "uniq_patches seen (p # ps) =
     (if p \<in> set seen then uniq_patches seen ps else p # uniq_patches (p # seen) ps)"

definition suggest_patches :: "(string \<times> json) list \<Rightarrow> issue list \<Rightarrow> error + json list" where
  "suggest_patches modl issues =
     (let effects_map = (if list_ex (\<lambda>it. code it = ''MissingEffect'') issues
                         then fst (compute_transitive_effects modl) else [])
      in case collect missing_return_patches issues of
           Inl e \<Rightarrow> Inl e
         | Inr ps1 \<Rightarrow>
            (case collect (not_pure_patches modl) issues of
               Inl e \<Rightarrow> Inl e
             | Inr ps2 \<Rightarrow>
                (case collect (missing_effect_patches modl effects_map) issues of
                   Inl e \<Rightarrow> Inl e
                 | Inr ps3 \<Rightarrow> Inr (uniq_patches [] (ps1 @ ps2 @ ps3)))))"

lemma undeclared_simps:
  "undeclared {} declared = {}"
  "undeclared (insert a A) declared
     = (if JStr a \<in> set declared then undeclared A declared else insert a (undeclared A declared))"
  by (auto simp: undeclared_def)

lemmas suggest_eval = suggest_patches_def collect.simps missing_return_patches_def
  not_pure_patches_def missing_effect_patches_def pointer_parts_def strip_char_def split_on_def
  isdigit_def py_int_def digit_chars_def superscript_digits_def nat_of_str_def digit_val_def
  function_at_def extend_effects_def uniq_patches.simps list_items_def dict_get_def
  str_of_nat.simps index_of_def undeclared_simps Let_def

subsection \<open>A single function whose only calls are to print\<close>

definition single_function_module :: "string \<Rightarrow> json \<Rightarrow> json list \<Rightarrow> json list \<Rightarrow> (string \<times> json) list" where
  "single_function_module nm params effs body =
     [(''module'', JStr ''m''), (''version'', JStr ''1''),
      (''functions'', JList [JDict
         [(''name'', JStr nm), (''params'', params), (''effects'', JList effs),
          (''body'', JList body)]])]"

lemma visit_calls_print_memo:
  assumes "list_all (\<lambda>c. fst c = ''print'') cs"
    and "map_of memo ''print'' = Some {''io.print''}"
  shows "visit_calls ix V cs (R, (memo, iss))
           = (if cs = [] then R else R \<union> {''io.print''}, (memo, iss))"
  using assms
proof (induction cs arbitrary: R)
  case Nil
  then show ?case by (simp add: visit_calls.simps)
next
  case (Cons c cs)
  have b: "is_builtin ''print''" by (simp add: is_builtin_def BUILTIN_EFFECTS_def)
  from Cons.prems have c: "fst c = ''print''" and cs: "list_all (\<lambda>c. fst c = ''print'') cs"
    by simp_all
  have v: "visit ix V ''print'' (memo, iss) = ({''io.print''}, (memo, iss))"
    using Cons.prems(2) by (simp add: visit.simps)
  show ?case
    using Cons.IH [OF cs Cons.prems(2), of "R \<union> {''io.print''}"] b c v
    by (simp add: visit_calls.simps)
qed

lemma visit_calls_print_first:
  assumes "list_all (\<lambda>c. fst c = ''print'') cs" and "cs \<noteq> []" and "''print'' \<notin> V"
  shows "visit_calls ix V cs (R, ([], []))
           = (R \<union> {''io.print''}, ([(''print'', {''io.print''})], []))"
proof -
  from assms(2) obtain c cs' where cs: "cs = c # cs'" by (cases cs) auto
  with assms(1) have c: "fst c = ''print''" and cs': "list_all (\<lambda>c. fst c = ''print'') cs'"
    by simp_all
  have b: "is_builtin ''print''" by (simp add: is_builtin_def BUILTIN_EFFECTS_def)
  have be: "builtin_effects ''print'' = {''io.print''}"
    by (simp add: builtin_effects_def BUILTIN_EFFECTS_def)
  have v: "visit ix V ''print'' ([], []) = ({''io.print''}, ([(''print'', {''io.print''})], []))"
    using assms(3) b be by (simp add: visit.simps)
  have "visit_calls ix V cs' (R \<union> {''io.print''}, ([(''print'', {''io.print''})], []))
      = (if cs' = [] then R \<union> {''io.print''} else (R \<union> {''io.print''}) \<union> {''io.print''},
         ([(''print'', {''io.print''})], []))"
    by (rule visit_calls_print_memo [OF cs']) simp
  with b c v show ?thesis
    unfolding cs by (simp add: visit_calls.simps)
qed

lemma single_function_index:
  "user_function_index (single_function_module nm params effs body)
     = \<lparr> user_funcs = [(nm, [(''name'', JStr nm), (''params'', params), (''effects'', JList effs),
            (''body'', JList body)])],
         func_index = [(nm, 0)] \<rparr>"
  by (simp add: user_function_index_def single_function_module_def list_items_def dict_get_def)

lemma compute_single_print:
  assumes "\<not> is_builtin nm"
    and "iter_calls_items body 0 ''/functions/0/body'' \<noteq> []"
    and "list_all (\<lambda>c. fst c = ''print'') (iter_calls_items body 0 ''/functions/0/body'')"
    and "list_all (\<lambda>e. \<exists>s. e = JStr s) effs"
  shows "compute_transitive_effects (single_function_module nm params effs body)
     = ([(''print'', {''io.print''}),
         (nm, (if effs = [] then {''pure''} else set (str_items (JList effs))) \<union> {''io.print''})], [])"
proof -
  let ?g = "[(''name'', JStr nm), (''params'', params), (''effects'', JList effs), (''body'', JList body)]"
  let ?ix = "\<lparr> user_funcs = [(nm, ?g)], func_index = [(nm, 0)] \<rparr>"
  let ?R = "(if effs = [] then {''pure''} else set (str_items (JList effs)))"
  have b: "is_builtin ''print''" by (simp add: is_builtin_def BUILTIN_EFFECTS_def)
  with assms(1) have ne: "nm \<noteq> ''print''" by auto
  have bc: "body_calls ?ix nm ?g = iter_calls_items body 0 ''/functions/0/body''"
    by (simp add: body_calls_def list_items_def dict_get_def str_of_nat.simps digit_chars_def)
  have si: "str_items (JList effs) = [] \<longleftrightarrow> effs = []"
    using assms(4) by (cases effs) (auto simp: str_items_def)
  have ep: "effects_or_pure ?g = ?R"
    by (simp add: effects_or_pure_def declared_effects_def dict_get_def si)
  have vc: "visit_calls ?ix {nm} (iter_calls_items body 0 ''/functions/0/body'') (?R, ([], []))
      = (?R \<union> {''io.print''}, ([(''print'', {''io.print''})], []))"
    by (rule visit_calls_print_first [OF assms(3) assms(2)]) (use ne in simp)
  have "visit ?ix {} nm ([], [])
      = (?R \<union> {''io.print''}, ([(''print'', {''io.print''}), (nm, ?R \<union> {''io.print''})], []))"
    using assms(1) ne by (simp add: visit.simps bc ep vc del: Un_insert_right)
  then show ?thesis
    by (simp add: compute_transitive_effects_def single_function_index del: Un_insert_right)
qed

lemma check_single_pure:
  assumes "\<not> is_builtin nm"
    and "iter_calls_items body 0 ''/functions/0/body'' \<noteq> []"
    and "list_all (\<lambda>c. fst c = ''print'') (iter_calls_items body 0 ''/functions/0/body'')"
  shows "check_effects (single_function_module nm params [JStr ''pure''] body)
     = [\<lparr> pointer = ''/functions/0/effects'', code = ''MissingEffect'', severity = ''error'' \<rparr>]"
proof -
  have b: "is_builtin ''print''" by (simp add: is_builtin_def BUILTIN_EFFECTS_def)
  have c: "compute_transitive_effects (single_function_module nm params [JStr ''pure''] body)
     = ([(''print'', {''io.print''}), (nm, {''pure'', ''io.print''})], [])"
    using compute_single_print [OF assms, of "[JStr ''pure'']" params]
    by (simp add: str_items_def insert_commute)
  show ?thesis
    using assms(1) b
    by (simp add: check_effects_def c single_function_index declaration_issues_def
        effects_or_pure_def declared_effects_def dict_get_def str_items_def
        str_of_nat.simps digit_chars_def)
qed

lemma check_single_print:
  assumes "\<not> is_builtin nm"
    and "iter_calls_items body 0 ''/functions/0/body'' \<noteq> []"
    and "list_all (\<lambda>c. fst c = ''print'') (iter_calls_items body 0 ''/functions/0/body'')"
  shows "check_effects (single_function_module nm params [JStr ''io.print''] body) = []"
proof -
  have b: "is_builtin ''print''" by (simp add: is_builtin_def BUILTIN_EFFECTS_def)
  have c: "compute_transitive_effects (single_function_module nm params [JStr ''io.print''] body)
     = ([(''print'', {''io.print''}), (nm, {''io.print''})], [])"
    using compute_single_print [OF assms, of "[JStr ''io.print'']" params]
    by (simp add: str_items_def)
  show ?thesis
    using assms(1) b
    by (simp add: check_effects_def c single_function_index declaration_issues_def
        effects_or_pure_def declared_effects_def dict_get_def str_items_def
        str_of_nat.simps digit_chars_def)
qed

lemma suggest_single_pure:
  assumes "\<not> is_builtin nm"
    and "iter_calls_items body 0 ''/functions/0/body'' \<noteq> []"
    and "list_all (\<lambda>c. fst c = ''print'') (iter_calls_items body 0 ''/functions/0/body'')"
  shows "suggest_patches (single_function_module nm params [JStr ''pure''] body)
       [\<lparr> pointer = ''/functions/0/effects'', code = ''MissingEffect'', severity = ''error'' \<rparr>]
     = Inr [JDict [(''op'', JStr ''replace''), (''path'', JStr ''/functions/0/effects''),
                   (''value'', JList [JStr ''io.print''])]]"
proof -
  have c: "compute_transitive_effects (single_function_module nm params [JStr ''pure''] body)
     = ([(''print'', {''io.print''}), (nm, {''pure'', ''io.print''})], [])"
    using compute_single_print [OF assms, of "[JStr ''pure'']" params]
    by (simp add: str_items_def insert_commute)
  have b: "is_builtin ''print''" by (simp add: is_builtin_def BUILTIN_EFFECTS_def)
  with assms(1) have ne: "nm \<noteq> ''print''" by auto
  show ?thesis
    using ne by (simp add: suggest_eval c) (simp add: single_function_module_def suggest_eval)
qed

lemma patch_single_pure:
  "apply_patch (JDict (single_function_module nm params [JStr ''pure''] body))
       [JDict [(''op'', JStr ''replace''), (''path'', JStr ''/functions/0/effects''),
               (''value'', JList [JStr ''io.print''])]]
     = Inr (JDict (single_function_module nm params [JStr ''io.print''] body))"
  by (simp add: single_function_module_def pointer_eval split_on_def)

definition effects_issue :: "string \<Rightarrow> issue" where
  "effects_issue c = \<lparr> pointer = ''/functions/0/effects'', code = c, severity = ''error'' \<rparr>"

definition replace_effects_patch :: "string list \<Rightarrow> json" where
  "replace_effects_patch effs =
     JDict [(''op'', JStr ''replace''), (''path'', JStr ''/functions/0/effects''),
            (''value'', JList (map JStr effs))]"

definition print_stmt :: "json \<Rightarrow> json" where
  "print_stmt arg =
     JDict [(''expr'', JDict [(''call'', JDict [(''fn'', JStr ''print''), (''args'', JList [arg])])])]"

text \<open>
  Example E2 of the specification, for every name of the function, every parameter list
  and every body whose calls are all calls of \<open>print\<close>: the function declares \<open>["pure"]\<close>,
  \<open>check_effects\<close> reports exactly a \<open>MissingEffect\<close> error at \<open>/functions/0/effects\<close>,
  \<open>suggest_patches\<close> on that report emits exactly the patch that replaces the effects list
  by \<open>["io.print"]\<close>, \<open>apply_patch\<close> yields the same module with that list, and
  \<open>check_effects\<close> on it returns the empty list.
\<close>

theorem missing_effect_closure:
  assumes "\<not> is_builtin nm"
    and "iter_calls_items body 0 ''/functions/0/body'' \<noteq> []"
    and "list_all (\<lambda>c. fst c = ''print'') (iter_calls_items body 0 ''/functions/0/body'')"
  shows "check_effects (single_function_module nm params [JStr ''pure''] body)
           = [effects_issue ''MissingEffect'']
       \<and> suggest_patches (single_function_module nm params [JStr ''pure''] body)
             (check_effects (single_function_module nm params [JStr ''pure''] body))
           = Inr [replace_effects_patch [''io.print'']]
       \<and> apply_patch (JDict (single_function_module nm params [JStr ''pure''] body))
             [replace_effects_patch [''io.print'']]
           = Inr (JDict (single_function_module nm params [JStr ''io.print''] body))
       \<and> check_effects (single_function_module nm params [JStr ''io.print''] body) = []"
  using check_single_pure [OF assms, of params] suggest_single_pure [OF assms, of params]
    patch_single_pure [of nm params body] check_single_print [OF assms, of params]
  by (simp add: effects_issue_def replace_effects_patch_def)

theorem missing_effect_closure_witness:
  "\<not> is_builtin ''g''
   \<and> map fst (iter_calls_items [print_stmt (JStr ''hi'')] 0 ''/functions/0/body'') = [''print'']
   \<and> check_effects (single_function_module ''g'' (JList []) [JStr ''pure''] [print_stmt (JStr ''hi'')])
       = [effects_issue ''MissingEffect'']
   \<and> suggest_patches (single_function_module ''g'' (JList []) [JStr ''pure''] [print_stmt (JStr ''hi'')])
         (check_effects (single_function_module ''g'' (JList []) [JStr ''pure''] [print_stmt (JStr ''hi'')]))
       = Inr [replace_effects_patch [''io.print'']]
   \<and> apply_patch (JDict (single_function_module ''g'' (JList []) [JStr ''pure''] [print_stmt (JStr ''hi'')]))
         [replace_effects_patch [''io.print'']]
       = Inr (JDict (single_function_module ''g'' (JList []) [JStr ''io.print''] [print_stmt (JStr ''hi'')]))
   \<and> check_effects (single_function_module ''g'' (JList []) [JStr ''io.print''] [print_stmt (JStr ''hi'')])
       = []"
proof -
  have 1: "\<not> is_builtin ''g''" by (simp add: effects_eval)
  have 2: "iter_calls_items [print_stmt (JStr ''hi'')] 0 ''/functions/0/body''
      = [(''print'', ''/functions/0/body/0/expr/call/fn'')]"
    by (simp add: print_stmt_def effects_eval)
  have 3: "iter_calls_items [print_stmt (JStr ''hi'')] 0 ''/functions/0/body'' \<noteq> []"
    unfolding 2 by simp
  have 4: "list_all (\<lambda>c. fst c = ''print'')
      (iter_calls_items [print_stmt (JStr ''hi'')] 0 ''/functions/0/body'')"
    unfolding 2 by simp
  have 5: "map fst (iter_calls_items [print_stmt (JStr ''hi'')] 0 ''/functions/0/body'') = [''print'']"
    unfolding 2 by simp
  from missing_effect_closure [OF 1 3 4, of "JList []"] 1 5 show ?thesis
    by blast
qed

section \<open>MissingEffect closure (C5)\<close>

text \<open>
  C5 does not hold of the code on every module it describes. Let the single function \<open>g\<close>
  declare \<open>["pure"]\<close> and run \<open>print(str_concat("a", "b"))\<close>, so that its body calls
  \<open>print\<close>. \<open>check_effects\<close> reports \<open>MissingEffect\<close> at \<open>/functions/0/effects\<close> and
  \<open>suggest_patches\<close> emits the one patch that replaces the list by \<open>["io.print"]\<close>, as
  claimed. On the patched module \<open>check_effects\<close> does not return the empty list: it
  reports \<open>MissingEffect\<close> again, since \<open>required - declared\<close> keeps the tag \<open>pure\<close> that the
  builtin \<open>str_concat\<close> contributes, although \<open>pure\<close> means that there is no side effect and
  the suggester drops it on purpose. The suggester then proposes the list \<open>["io.print"]\<close>
  once more, a patch that changes nothing, and the declaration \<open>["io.print", "pure"]\<close> is
  answered by \<open>NotPure\<close>: for this body no declaration satisfies the checker.
\<close>

theorem closure_fails_with_pure_builtin:
  "map fst (iter_calls_items
       [print_stmt (JDict [(''call'', JDict [(''fn'', JStr ''str_concat''),
                                             (''args'', JList [JStr ''a'', JStr ''b''])])])]
       0 ''/functions/0/body'') = [''print'', ''str_concat'']
   \<and> check_effects (single_function_module ''g'' (JList []) [JStr ''pure'']
       [print_stmt (JDict [(''call'', JDict [(''fn'', JStr ''str_concat''),
                                             (''args'', JList [JStr ''a'', JStr ''b''])])])])
       = [effects_issue ''MissingEffect'']
   \<and> suggest_patches (single_function_module ''g'' (JList []) [JStr ''pure'']
       [print_stmt (JDict [(''call'', JDict [(''fn'', JStr ''str_concat''),
                                             (''args'', JList [JStr ''a'', JStr ''b''])])])])
         [effects_issue ''MissingEffect'']
       = Inr [replace_effects_patch [''io.print'']]
   \<and> apply_patch (JDict (single_function_module ''g'' (JList []) [JStr ''pure'']
       [print_stmt (JDict [(''call'', JDict [(''fn'', JStr ''str_concat''),
                                             (''args'', JList [JStr ''a'', JStr ''b''])])])]))
         [replace_effects_patch [''io.print'']]
       = Inr (JDict (single_function_module ''g'' (JList []) [JStr ''io.print'']
       [print_stmt (JDict [(''call'', JDict [(''fn'', JStr ''str_concat''),
                                             (''args'', JList [JStr ''a'', JStr ''b''])])])]))
   \<and> check_effects (single_function_module ''g'' (JList []) [JStr ''io.print'']
       [print_stmt (JDict [(''call'', JDict [(''fn'', JStr ''str_concat''),
                                             (''args'', JList [JStr ''a'', JStr ''b''])])])])
       = [effects_issue ''MissingEffect'']
   \<and> suggest_patches (single_function_module ''g'' (JList []) [JStr ''io.print'']
       [print_stmt (JDict [(''call'', JDict [(''fn'', JStr ''str_concat''),
                                             (''args'', JList [JStr ''a'', JStr ''b''])])])])
         [effects_issue ''MissingEffect'']
       = Inr [replace_effects_patch [''io.print'']]
   \<and> check_effects (single_function_module ''g'' (JList []) [JStr ''io.print'', JStr ''pure'']
       [print_stmt (JDict [(''call'', JDict [(''fn'', JStr ''str_concat''),
                                             (''args'', JList [JStr ''a'', JStr ''b''])])])])
       = [\<lparr> pointer = ''/functions/0/effects'', code = ''NotPure'', severity = ''warning'' \<rparr>]"
proof -
  let ?body = "[print_stmt (JDict [(''call'', JDict [(''fn'', JStr ''str_concat''),
                                             (''args'', JList [JStr ''a'', JStr ''b''])])])]"
  have 1: "map fst (iter_calls_items ?body 0 ''/functions/0/body'') = [''print'', ''str_concat'']"
    by (simp add: print_stmt_def call_refs_def qual_last_def split_on_def dict_get_def
        str_of_nat.simps digit_chars_def)
  have c1: "compute_transitive_effects (single_function_module ''g'' (JList []) [JStr ''pure''] ?body)
      = ([(''print'', {''io.print''}), (''str_concat'', {''pure''}), (''g'', {''pure'', ''io.print''})], [])"
    by (simp add: single_function_module_def print_stmt_def effects_eval; auto)
  have c2: "compute_transitive_effects (single_function_module ''g'' (JList []) [JStr ''io.print''] ?body)
      = ([(''print'', {''io.print''}), (''str_concat'', {''pure''}), (''g'', {''io.print'', ''pure''})], [])"
    by (simp add: single_function_module_def print_stmt_def effects_eval; auto)
  have c3: "compute_transitive_effects
        (single_function_module ''g'' (JList []) [JStr ''io.print'', JStr ''pure''] ?body)
      = ([(''print'', {''io.print''}), (''str_concat'', {''pure''}), (''g'', {''io.print'', ''pure''})], [])"
    by (simp add: single_function_module_def print_stmt_def effects_eval; auto)
  have b: "is_builtin ''print''" "is_builtin ''str_concat''" "\<not> is_builtin ''g''"
    by (simp_all add: is_builtin_def BUILTIN_EFFECTS_def)
  have 2: "check_effects (single_function_module ''g'' (JList []) [JStr ''pure''] ?body)
      = [effects_issue ''MissingEffect'']"
    using b
    by (simp add: check_effects_def c1 single_function_index declaration_issues_def
        effects_or_pure_def declared_effects_def dict_get_def str_items_def
        str_of_nat.simps digit_chars_def effects_issue_def)
  have 3: "suggest_patches (single_function_module ''g'' (JList []) [JStr ''pure''] ?body)
        [effects_issue ''MissingEffect''] = Inr [replace_effects_patch [''io.print'']]"
    by (simp add: suggest_eval c1 effects_issue_def replace_effects_patch_def)
       (simp add: single_function_module_def suggest_eval)
  have 4: "apply_patch (JDict (single_function_module ''g'' (JList []) [JStr ''pure''] ?body))
        [replace_effects_patch [''io.print'']]
      = Inr (JDict (single_function_module ''g'' (JList []) [JStr ''io.print''] ?body))"
    using patch_single_pure [of "''g''" "JList []" ?body]
    by (simp add: replace_effects_patch_def)
  have 5: "check_effects (single_function_module ''g'' (JList []) [JStr ''io.print''] ?body)
      = [effects_issue ''MissingEffect'']"
    using b
    by (simp add: check_effects_def c2 single_function_index declaration_issues_def
        effects_or_pure_def declared_effects_def dict_get_def str_items_def
        str_of_nat.simps digit_chars_def effects_issue_def)
  have 6: "suggest_patches (single_function_module ''g'' (JList []) [JStr ''io.print''] ?body)
        [effects_issue ''MissingEffect''] = Inr [replace_effects_patch [''io.print'']]"
    by (simp add: suggest_eval c2 effects_issue_def replace_effects_patch_def)
       (simp add: single_function_module_def suggest_eval)
  have 7: "check_effects (single_function_module ''g'' (JList []) [JStr ''io.print'', JStr ''pure''] ?body)
      = [\<lparr> pointer = ''/functions/0/effects'', code = ''NotPure'', severity = ''warning'' \<rparr>]"
    using b
    by (simp add: check_effects_def c3 single_function_index declaration_issues_def
        effects_or_pure_def declared_effects_def dict_get_def str_items_def
        str_of_nat.simps digit_chars_def)
  from 1 2 3 4 5 6 7 show ?thesis by blast
qed


section \<open>Quick-fix pre-validation (lsp_server.py)\<close>

text \<open>
  An \<open>IssueSummary\<close> holds the \<open>(code, pointer)\<close> pairs of the errors and of the warnings of
  a document. \<open>_edits_pass_prevalidation\<close> applies the edits to the text, parses the
  result, validates it against the schema, optionally compares its canonical text, and
  then compares its summary with the baseline. The steps that lie outside the checker
  proper (text edits, the JSON parser, the schema validator, the serialiser, the semantic
  and the type checker) are the fields of a record of services, each of which may raise;
  the effect checker is the one modelled above. Any exception makes the answer \<open>False\<close>.
\<close>

record IssueSummary =
  errors :: "(string \<times> string) set"
  warnings :: "(string \<times> string) set"

definition summarize_issues :: "issue list \<Rightarrow> IssueSummary" where
  "summarize_issues issues =
     \<lparr> errors = set (map (\<lambda>i. (code i, pointer i)) (filter (\<lambda>i. severity i \<noteq> ''warning'') issues)),
       warnings = set (map (\<lambda>i. (code i, pointer i)) (filter (\<lambda>i. severity i = ''warning'') issues)) \<rparr>"

definition no_regression :: "IssueSummary \<Rightarrow> IssueSummary \<Rightarrow> bool" where
  "no_regression base new =
     (if \<not> errors new \<subseteq> errors base then False
      else if card (errors new) = card (errors base) \<and> \<not> warnings new \<subseteq> warnings base then False
      else if errors new = errors base \<and> warnings new = warnings base then False
      else True)"

record 'e services =
  apply_text_edits :: "string \<Rightarrow> 'e list \<Rightarrow> error + string"
  json_loads :: "string \<Rightarrow> error + json"
  validate :: "json \<Rightarrow> error + string list"
  dumps_text :: "json \<Rightarrow> error + string"
  semantic_check :: "json \<Rightarrow> error + issue list"
  type_check :: "json \<Rightarrow> error + issue list"

definition summarize_non_schema :: "'e services \<Rightarrow> json \<Rightarrow> error + IssueSummary" where
  "summarize_non_schema sv modl =
     (case semantic_check sv modl of
        Inl e \<Rightarrow> Inl e
      | Inr sem \<Rightarrow>
         (case type_check sv modl of
            Inl e \<Rightarrow> Inl e
          | Inr tys \<Rightarrow> Inr (summarize_issues (sem @ tys @ check_effects (members modl)))))"

definition edits_pass_prevalidation ::
  "'e services \<Rightarrow> string \<Rightarrow> 'e list \<Rightarrow> IssueSummary option \<Rightarrow> (string \<times> string) option
     \<Rightarrow> string option \<Rightarrow> bool" where
  "edits_pass_prevalidation sv doc_text edits baseline target expected_canonical =
     (case apply_text_edits sv doc_text edits of
        Inl e \<Rightarrow> False
      | Inr new_text \<Rightarrow>
         (case json_loads sv new_text of
            Inl e \<Rightarrow> False
          | Inr val \<Rightarrow>
             if \<not> is_dict val then False
             else (case validate sv val of
                Inl e \<Rightarrow> False
              | Inr schema_errors \<Rightarrow>
                 if length schema_errors \<noteq> 0 then False
                 else if (case expected_canonical of
                            None \<Rightarrow> False
                          | Some expected \<Rightarrow>
                              (case dumps_text sv val of Inl e \<Rightarrow> True | Inr s \<Rightarrow> s \<noteq> expected))
                 then False
                 else (case baseline of
                    None \<Rightarrow> True
                  | Some base \<Rightarrow>
                     (case summarize_non_schema sv val of
                        Inl e \<Rightarrow> False
                      | Inr new_sum \<Rightarrow>
                         (if (case target of
                                   None \<Rightarrow> False
                                 | Some t \<Rightarrow>
                                     (t \<in> errors base \<or> t \<in> warnings base)
                                     \<and> (t \<in> errors new_sum \<or> t \<in> warnings new_sum))
                             then False
                             else no_regression base new_sum))))))"

definition silent_services :: "json \<Rightarrow> unit services" where
  "silent_services doc =
     \<lparr> apply_text_edits = (\<lambda>t es. Inr t), json_loads = (\<lambda>t. Inr doc),
       validate = (\<lambda>v. Inr []), dumps_text = (\<lambda>v. Inr []),
       semantic_check = (\<lambda>v. Inr []), type_check = (\<lambda>v. Inr []) \<rparr>"

section \<open>Pre-validation refuses regressing and no-op edits (C6)\<close>

text \<open>
  C6. Whenever the edits apply and the edited text parses, with \<open>new_sum\<close> the issue summary
  of the edited document, \<open>_edits_pass_prevalidation\<close> called with a baseline and a target
  answers \<open>False\<close> if the errors of \<open>new_sum\<close> are not a subset of the baseline's, or the
  errors are the baseline's and some warning is not in the baseline, or the target, a
  diagnostic of the baseline, is still among the errors or warnings of \<open>new_sum\<close>, or both
  sets are exactly the baseline's. This holds whatever the services answer and whatever
  canonical text is expected.
\<close>

theorem prevalidation_refuses_regressions:
  assumes "apply_text_edits sv doc_text edits = Inr new_text"
    and "json_loads sv new_text = Inr val"
    and "summarize_non_schema sv val = Inr new_sum"
    and "\<not> errors new_sum \<subseteq> errors base
         \<or> (errors new_sum = errors base \<and> \<not> warnings new_sum \<subseteq> warnings base)
         \<or> ((target \<in> errors base \<or> target \<in> warnings base)
              \<and> (target \<in> errors new_sum \<or> target \<in> warnings new_sum))
         \<or> (errors new_sum = errors base \<and> warnings new_sum = warnings base)"
  shows "\<not> edits_pass_prevalidation sv doc_text edits (Some base) (Some target) expected_canonical"
  using assms
  by (auto simp: edits_pass_prevalidation_def no_regression_def
      split: sum.splits option.splits)

theorem prevalidation_refuses_regressions_witness:
  "summarize_non_schema
       (silent_services (JDict (single_function_module ''g'' (JList []) [JStr ''pure''] [print_stmt (JStr ''hi'')])))
       (JDict (single_function_module ''g'' (JList []) [JStr ''pure''] [print_stmt (JStr ''hi'')]))
     = Inr \<lparr> errors = {(''MissingEffect'', ''/functions/0/effects'')}, warnings = {} \<rparr>
   \<and> \<not> edits_pass_prevalidation
       (silent_services (JDict (single_function_module ''g'' (JList []) [JStr ''pure''] [print_stmt (JStr ''hi'')])))
       [] []
       (Some \<lparr> errors = {(''MissingEffect'', ''/functions/0/effects'')}, warnings = {} \<rparr>)
       (Some (''MissingEffect'', ''/functions/0/effects'')) None"
proof -
  let ?doc = "JDict (single_function_module ''g'' (JList []) [JStr ''pure''] [print_stmt (JStr ''hi'')])"
  let ?sum = "\<lparr> errors = {(''MissingEffect'', ''/functions/0/effects'')}, warnings = {} \<rparr>"
  have 1: "apply_text_edits (silent_services ?doc) [] [] = Inr []"
    by (simp add: silent_services_def)
  have 2: "json_loads (silent_services ?doc) [] = Inr ?doc"
    by (simp add: silent_services_def)
  have c: "check_effects (single_function_module ''g'' (JList []) [JStr ''pure''] [print_stmt (JStr ''hi'')])
      = [\<lparr> pointer = ''/functions/0/effects'', code = ''MissingEffect'', severity = ''error'' \<rparr>]"
    by (rule check_single_pure) (simp_all add: print_stmt_def effects_eval)
  have 3: "summarize_non_schema (silent_services ?doc) ?doc = Inr ?sum"
    by (simp add: summarize_non_schema_def silent_services_def members_def c summarize_issues_def)
  have 4: "errors ?sum = errors ?sum \<and> warnings ?sum = warnings ?sum" by simp
  from prevalidation_refuses_regressions [OF 1 2 3, of ?sum "(''MissingEffect'', ''/functions/0/effects'')" None] 3
  show ?thesis by simp
qed


section \<open>The AST interpreter (sandbox_ast.py)\<close>

text \<open>
  The interpreter works on the JSON tree itself, and a run-time value is a JSON value. An
  environment is a Python \<open>dict\<close>; its keys are the values found under \<open>name\<close> and \<open>params\<close>,
  strings in a valid module, and a list or an object used as a key raises \<open>TypeError\<close>
  (keys are compared as values here; Python also identifies \<open>1\<close>, \<open>1.0\<close> and \<open>True\<close>).
  Iterating a value that is not a list follows Python: a string yields its characters, an
  object its keys, anything else raises \<open>TypeError\<close>.

  The interpreter recurses on the Python stack. The first argument of \<open>eval_expr\<close>,
  \<open>exec_stmt\<close>, \<open>call_user\<close> and of the dispatcher is the depth of stack that is left; at
  depth \<open>0\<close> the call raises \<open>RecursionError\<close>, as Python does when the stack is exhausted.
  All four are total. The builtin table of \<open>runtime_guarded\<close> is a parameter \<open>bi\<close>: a
  function of the installed dispatcher, the builtin's name and the arguments, which stands
  for \<open>call_builtin\<close> under the allow-list in force. Only the names of the builtins are
  fixed; they are the keys of \<open>BUILTIN_EFFECTS\<close>. \<open>ReturnSignal\<close> is the outcome
  \<open>Returned\<close> of a statement; every other exception is \<open>Raised\<close>.
\<close>

type_synonym env = "(json \<times> json) list"
type_synonym fn_table = "(string \<times> (string \<times> json) list) list"
type_synonym dispatcher = "string \<Rightarrow> json list \<Rightarrow> error + json"
type_synonym builtins = "dispatcher \<Rightarrow> string \<Rightarrow> json list \<Rightarrow> error + json"

datatype outcome = Normal env | Returned json | Raised error

definition truthy :: "json \<Rightarrow> bool" where
  "truthy v =
     (case v of
        JNull \<Rightarrow> False
      | JBool b \<Rightarrow> b
      | JInt i \<Rightarrow> i \<noteq> 0
      | JFloat r \<Rightarrow> r \<noteq> 0
      | JStr s \<Rightarrow> s \<noteq> []
      | JList xs \<Rightarrow> xs \<noteq> []
      | JDict d \<Rightarrow> d \<noteq> [])"

definition hashable :: "json \<Rightarrow> bool" where
  "hashable v = (case v of JList xs \<Rightarrow> False | JDict d \<Rightarrow> False | _ \<Rightarrow> True)"

definition py_iter :: "json \<Rightarrow> error + json list" where
  "py_iter v =
     (case v of
        JList xs \<Rightarrow> Inr xs
      | JStr s \<Rightarrow> Inr (map (\<lambda>c. JStr [c]) s)
      | JDict d \<Rightarrow> Inr (map (\<lambda>m. JStr (fst m)) d)
      | _ \<Rightarrow> Inl TypeError)"

definition py_len :: "json \<Rightarrow> error + nat" where
  "py_len v =
     (case v of
        JList xs \<Rightarrow> Inr (length xs)
      | JStr s \<Rightarrow> Inr (length s)
      | JDict d \<Rightarrow> Inr (length d)
      | _ \<Rightarrow> Inl TypeError)"

definition or_empty :: "json \<Rightarrow> json" where
  "or_empty v = (if truthy v then v else JList [])"

primrec eval_all :: "('a \<Rightarrow> error + 'b) \<Rightarrow> 'a list \<Rightarrow> error + 'b list" where
  "eval_all f [] = Inr []"
| "eval_all f (x # xs) =
     (case f x of
        Inl e \<Rightarrow> Inl e
      | Inr y \<Rightarrow> (case eval_all f xs of Inl e \<Rightarrow> Inl e | Inr ys \<Rightarrow> Inr (y # ys)))"

definition BUILTINS :: "string list" where
  "BUILTINS = map fst BUILTIN_EFFECTS"

definition eval_call ::
  "(json \<Rightarrow> env \<Rightarrow> error + json) \<Rightarrow> dispatcher \<Rightarrow> dispatcher \<Rightarrow> fn_table \<Rightarrow> json \<Rightarrow> env
     \<Rightarrow> error + json" where
  "eval_call ev call_user_rec call_builtin fns call env =
     (case call of
        JDict c \<Rightarrow>
          (case map_of c ''fn'' of
             None \<Rightarrow> Inl KeyError
           | Some (JStr f) \<Rightarrow>
               (case py_iter (case map_of c ''args'' of None \<Rightarrow> JList [] | Some a \<Rightarrow> a) of
                  Inl e \<Rightarrow> Inl e
                | Inr as \<Rightarrow>
                   (case eval_all (\<lambda>a. ev a env) as of
                      Inl e \<Rightarrow> Inl e
                    | Inr args \<Rightarrow>
                       if qual_last f \<in> set BUILTINS then call_builtin (qual_last f) args
                       else if qual_last f \<notin> set (map fst fns)
                       then Inl (SandboxError ''Unknown function'')
                       else call_user_rec (qual_last f) args))
           | Some other \<Rightarrow> Inl AttributeError)
      | _ \<Rightarrow> Inl TypeError)"

definition eval_expr_body ::
  "(json \<Rightarrow> env \<Rightarrow> error + json) \<Rightarrow> dispatcher \<Rightarrow> dispatcher \<Rightarrow> fn_table \<Rightarrow> json \<Rightarrow> env
     \<Rightarrow> error + json" where
  "eval_expr_body ev call_user_rec call_builtin fns expr env =
     (case expr of
        JDict d \<Rightarrow>
          if ''var'' \<in> set (map fst d)
          then (if \<not> hashable (dict_get d ''var'') then Inl TypeError
                else (case map_of env (dict_get d ''var'') of
                        None \<Rightarrow> Inl (SandboxError ''Undefined variable'')
                      | Some v \<Rightarrow> Inr v))
          else if ''list'' \<in> set (map fst d)
          then (case py_iter (dict_get d ''list'') of
                  Inl e \<Rightarrow> Inl e
                | Inr xs \<Rightarrow>
                    (case eval_all (\<lambda>x. ev x env) xs of Inl e \<Rightarrow> Inl e | Inr vs \<Rightarrow> Inr (JList vs)))
          else if ''obj'' \<in> set (map fst d)
          then (case dict_get d ''obj'' of
                  JDict m \<Rightarrow>
                    (case eval_all (\<lambda>kv. ev (snd kv) env) m of
                       Inl e \<Rightarrow> Inl e
                     | Inr vs \<Rightarrow> Inr (JDict (zip (map fst m) vs)))
                | _ \<Rightarrow> Inl AttributeError)
          else if ''call'' \<in> set (map fst d)
          then eval_call ev call_user_rec call_builtin fns (dict_get d ''call'') env
          else Inl (SandboxError ''Unknown expr form'')
      | JList xs \<Rightarrow> Inl (SandboxError ''Invalid expr node'')
      | _ \<Rightarrow> Inr expr)"

primrec run_block :: "(json \<Rightarrow> env \<Rightarrow> outcome) \<Rightarrow> json list \<Rightarrow> env \<Rightarrow> outcome" where
  "run_block ex [] env = Normal env"
| "run_block ex (s # ss) env =
     (case ex s env of
        Normal env' \<Rightarrow> run_block ex ss env'
      | Returned v \<Rightarrow> Returned v
      | Raised e \<Rightarrow> Raised e)"

definition branch_of :: "(string \<times> json) list \<Rightarrow> json \<Rightarrow> json" where
  "branch_of spec c =
     (case map_of spec (if truthy c then ''then'' else ''else'') of None \<Rightarrow> JList [] | Some b \<Rightarrow> b)"

definition exec_stmt_body ::
  "(json \<Rightarrow> env \<Rightarrow> error + json) \<Rightarrow> (json \<Rightarrow> env \<Rightarrow> outcome) \<Rightarrow> json \<Rightarrow> env \<Rightarrow> outcome" where
  "exec_stmt_body ev ex stmt env =
     (case stmt of
        JDict d \<Rightarrow>
          if length d \<noteq> 1 then Raised (SandboxError ''Invalid stmt shape'')
          else if fst (hd d) = ''let''
          then (case snd (hd d) of
                  JDict spec \<Rightarrow>
                    (case map_of spec ''name'' of
                       None \<Rightarrow> Raised KeyError
                     | Some name \<Rightarrow>
                        (case ev (dict_get spec ''expr'') env of
                           Inl e \<Rightarrow> Raised e
                         | Inr v \<Rightarrow>
                             if hashable name then Normal (AList.update name v env)
                             else Raised TypeError))
                | _ \<Rightarrow> Raised TypeError)
          else if fst (hd d) = ''expr''
          then (case ev (snd (hd d)) env of Inl e \<Rightarrow> Raised e | Inr v \<Rightarrow> Normal env)
          else if fst (hd d) = ''assert''
          then (case snd (hd d) of
                  JDict spec \<Rightarrow>
                    (case ev (dict_get spec ''expr'') env of
                       Inl e \<Rightarrow> Raised e
                     | Inr ok \<Rightarrow> if truthy ok then Normal env else Raised AssertionError)
                | _ \<Rightarrow> Raised AttributeError)
          else if fst (hd d) = ''return''
          then (case ev (snd (hd d)) env of Inl e \<Rightarrow> Raised e | Inr v \<Rightarrow> Returned v)
          else if fst (hd d) = ''if''
          then (case snd (hd d) of
                  JDict spec \<Rightarrow>
                    (case ev (dict_get spec ''cond'') env of
                       Inl e \<Rightarrow> Raised e
                     | Inr c \<Rightarrow>
                        (case py_iter (branch_of spec c) of
                           Inl e \<Rightarrow> Raised e
                         | Inr block \<Rightarrow> run_block ex block env))
                | _ \<Rightarrow> Raised AttributeError)
          else Raised (SandboxError ''Unknown stmt'')
      | _ \<Rightarrow> Raised (SandboxError ''Invalid stmt shape''))"

definition bind_params :: "json list \<Rightarrow> json list \<Rightarrow> env" where
  "bind_params ps args = fold (\<lambda>pa env. AList.update (fst pa) (snd pa) env) (zip ps args) []"

definition call_user_body ::
  "(json list \<Rightarrow> env \<Rightarrow> outcome) \<Rightarrow> fn_table \<Rightarrow> string \<Rightarrow> json list \<Rightarrow> error + json" where
  "call_user_body exec_block_rec fns fn_name args =
     (case map_of fns fn_name of
        None \<Rightarrow> Inl KeyError
      | Some fn \<Rightarrow>
         (case py_len (or_empty (dict_get fn ''params'')) of
            Inl e \<Rightarrow> Inl e
          | Inr n \<Rightarrow>
             if n \<noteq> length args then Inl (SandboxError ''Arity mismatch'')
             else (case py_iter (or_empty (dict_get fn ''params'')) of
                Inl e \<Rightarrow> Inl e
              | Inr ps \<Rightarrow>
                 if \<not> list_all hashable ps then Inl TypeError
                 else (case py_iter (or_empty (dict_get fn ''body'')) of
                    Inl e \<Rightarrow> Inl e
                  | Inr stmts \<Rightarrow>
                     (case exec_block_rec stmts (bind_params ps args) of
                        Normal env' \<Rightarrow> Inr JNull
                      | Returned v \<Rightarrow> Inr v
                      | Raised e \<Rightarrow> Inl e)))))"

definition dispatch_body :: "dispatcher \<Rightarrow> dispatcher \<Rightarrow> fn_table \<Rightarrow> string \<Rightarrow> json list \<Rightarrow> error + json" where
  "dispatch_body call_user_rec call_builtin fns fn_name dargs =
     (if qual_last fn_name \<in> set BUILTINS then call_builtin (qual_last fn_name) dargs
      else if qual_last fn_name \<notin> set (map fst fns) then Inl (SandboxError ''Unknown function'')
      else call_user_rec (qual_last fn_name) dargs)"

text \<open>
  One level of stack: the four functions at depth \<open>Suc n\<close> are their bodies over the four
  functions at depth \<open>n\<close>.
\<close>

type_synonym interpreter =
  "(json \<Rightarrow> env \<Rightarrow> error + json) \<times> (json \<Rightarrow> env \<Rightarrow> outcome) \<times> dispatcher \<times> dispatcher"

primrec interp :: "nat \<Rightarrow> builtins \<Rightarrow> fn_table \<Rightarrow> interpreter" where
  "interp 0 bi fns =
     ((\<lambda>expr env. Inl RecursionError), (\<lambda>stmt env. Raised RecursionError),
      (\<lambda>fn_name args. Inl RecursionError), (\<lambda>fn_name dargs. Inl RecursionError))"
| "interp (Suc n) bi fns =
     (case interp n bi fns of
        (ev, ex, cu, dp) \<Rightarrow>
          (eval_expr_body ev cu (bi dp) fns,
           exec_stmt_body ev ex,
           call_user_body (run_block ex) fns,
           dispatch_body cu (bi dp) fns))"

definition eval_expr :: "nat \<Rightarrow> builtins \<Rightarrow> fn_table \<Rightarrow> json \<Rightarrow> env \<Rightarrow> error + json" where
  "eval_expr n bi fns = fst (interp n bi fns)"

definition exec_stmt :: "nat \<Rightarrow> builtins \<Rightarrow> fn_table \<Rightarrow> json \<Rightarrow> env \<Rightarrow> outcome" where
  "exec_stmt n bi fns = fst (snd (interp n bi fns))"

definition call_user :: "nat \<Rightarrow> builtins \<Rightarrow> fn_table \<Rightarrow> string \<Rightarrow> json list \<Rightarrow> error + json" where
  "call_user n bi fns = fst (snd (snd (interp n bi fns)))"

definition dispatch :: "nat \<Rightarrow> builtins \<Rightarrow> fn_table \<Rightarrow> string \<Rightarrow> json list \<Rightarrow> error + json" where
  "dispatch n bi fns = snd (snd (snd (interp n bi fns)))"

lemma eval_expr_simps:
  "eval_expr 0 bi fns expr env = Inl RecursionError"
  "eval_expr (Suc n) bi fns expr env =
     eval_expr_body (eval_expr n bi fns) (call_user n bi fns) (bi (dispatch n bi fns)) fns expr env"
  by (simp_all add: eval_expr_def call_user_def dispatch_def split: prod.splits)

lemma exec_stmt_simps:
  "exec_stmt 0 bi fns stmt env = Raised RecursionError"
  "exec_stmt (Suc n) bi fns stmt env =
     exec_stmt_body (eval_expr n bi fns) (exec_stmt n bi fns) stmt env"
  by (simp_all add: eval_expr_def exec_stmt_def split: prod.splits)

lemma call_user_simps:
  "call_user 0 bi fns fn_name args = Inl RecursionError"
  "call_user (Suc n) bi fns fn_name args =
     call_user_body (run_block (exec_stmt n bi fns)) fns fn_name args"
  by (simp_all add: call_user_def exec_stmt_def split: prod.splits)

lemma dispatch_simps:
  "dispatch 0 bi fns fn_name dargs = Inl RecursionError"
  "dispatch (Suc n) bi fns fn_name dargs =
     dispatch_body (call_user n bi fns) (bi (dispatch n bi fns)) fns fn_name dargs"
  by (simp_all add: call_user_def dispatch_def split: prod.splits)

definition exec_block :: "nat \<Rightarrow> builtins \<Rightarrow> fn_table \<Rightarrow> json list \<Rightarrow> env \<Rightarrow> outcome" where
  "exec_block n bi fns stmts env = run_block (exec_stmt n bi fns) stmts env"

definition function_table :: "(string \<times> json) list \<Rightarrow> fn_table" where
  "function_table modl = user_funcs (user_function_index modl)"

definition run_module :: "nat \<Rightarrow> builtins \<Rightarrow> (string \<times> json) list \<Rightarrow> string \<Rightarrow> json list \<Rightarrow> error + json" where
  "run_module depth bi modl fn args =
     (if qual_last fn \<notin> set (map fst (function_table modl)) \<and> qual_last fn \<notin> set BUILTINS
      then Inl (SandboxError ''Unknown function'')
      else if qual_last fn \<in> set BUILTINS
      then bi (dispatch depth bi (function_table modl)) (qual_last fn) args
      else call_user depth bi (function_table modl) (qual_last fn) args)"

subsection \<open>Blocks, return statements and calls\<close>

text \<open>
  \<open>returns_in\<close> holds of a JSON value in which some object has the key \<open>return\<close>. A block
  without such a key never raises \<open>ReturnSignal\<close>.
\<close>

fun returns_in :: "json \<Rightarrow> bool"
  and returns_in_members :: "(string \<times> json) list \<Rightarrow> bool"
  and returns_in_list :: "json list \<Rightarrow> bool"
where
  "returns_in (JDict d) = returns_in_members d"
| "returns_in (JList xs) = returns_in_list xs"
| "returns_in v = False"
| "returns_in_members [] = False"
| "returns_in_members (m # ms) = (fst m = ''return'' \<or> returns_in (snd m) \<or> returns_in_members ms)"
| "returns_in_list [] = False"
| "returns_in_list (x # xs) = (returns_in x \<or> returns_in_list xs)"

lemma run_block_append:
  "run_block ex (pre @ rest) env =
     (case run_block ex pre env of
        Normal env' \<Rightarrow> run_block ex rest env'
      | Returned v \<Rightarrow> Returned v
      | Raised e \<Rightarrow> Raised e)"
  by (induction pre arbitrary: env) (auto split: outcome.splits)

lemma exec_return:
  "exec_stmt (Suc n) bi fns (JDict [(''return'', e)]) env =
     (case eval_expr n bi fns e env of Inl err \<Rightarrow> Raised err | Inr v \<Rightarrow> Returned v)"
  by (simp add: exec_stmt_simps exec_stmt_body_def)

lemma returns_in_members_map_of:
  "\<not> returns_in_members d \<Longrightarrow> map_of d k = Some v \<Longrightarrow> \<not> returns_in v"
  by (induction d) (auto split: if_splits)

lemma returns_in_py_iter:
  "\<not> returns_in v \<Longrightarrow> py_iter v = Inr ss \<Longrightarrow> \<not> returns_in_list ss"
proof (cases v)
  case (JStr s)
  assume "py_iter v = Inr ss"
  with JStr have "ss = map (\<lambda>c. JStr [c]) s" by (simp add: py_iter_def)
  then show "\<not> returns_in_list ss" by (induction s arbitrary: ss) auto
next
  case (JDict d)
  assume "py_iter v = Inr ss"
  with JDict have "ss = map (\<lambda>m. JStr (fst m)) d" by (simp add: py_iter_def)
  then show "\<not> returns_in_list ss" by (induction d arbitrary: ss) auto
qed (auto simp: py_iter_def)

lemma no_return_no_signal:
  "\<not> returns_in_list ss \<Longrightarrow> run_block (exec_stmt n bi fns) ss env \<noteq> Returned v"
proof (induction n arbitrary: ss env)
  case 0
  then show ?case
    by (cases ss) (auto simp: exec_stmt_simps)
next
  case (Suc n)
  from Suc.prems show ?case
  proof (induction ss arbitrary: env)
    case Nil
    then show ?case by simp
  next
    case (Cons s ss)
    from Cons.prems have s: "\<not> returns_in s" and ss: "\<not> returns_in_list ss" by simp_all
    have "exec_stmt (Suc n) bi fns s env \<noteq> Returned v"
    proof
      assume r: "exec_stmt (Suc n) bi fns s env = Returned v"
      then obtain d where d: "s = JDict d"
        by (cases s) (auto simp: exec_stmt_simps exec_stmt_body_def)
      with r have len: "length d = 1"
        by (auto simp: exec_stmt_simps exec_stmt_body_def split: if_splits)
      then obtain tag b where tb: "d = [(tag, b)]"
        by (cases d) auto
      from s d tb have nr: "tag \<noteq> ''return''" and nb: "\<not> returns_in b" by simp_all
      from r d tb nr obtain spec c block where
        spec: "b = JDict spec"
        and block: "py_iter (branch_of spec c) = Inr block"
        and run: "run_block (exec_stmt n bi fns) block env = Returned v"
        by (auto simp: exec_stmt_simps exec_stmt_body_def
            split: if_splits json.splits option.splits sum.splits)
      from nb spec have "\<not> returns_in_members spec" by simp
      then have "\<not> returns_in (branch_of spec c)"
        by (auto simp: branch_of_def split: option.splits dest: returns_in_members_map_of)
      from this block have "\<not> returns_in_list block" by (rule returns_in_py_iter)
      from Suc.IH [OF this] run show False by blast
    qed
    with Cons.IH [OF ss] show ?case
      by (auto split: outcome.splits)
  qed
qed


lemma call_user_outcome:
  assumes "map_of fns fn_name = Some fn"
    and "dict_get fn ''params'' = JList ps" and "list_all hashable ps" and "length ps = length args"
    and "dict_get fn ''body'' = JList body"
  shows "call_user (Suc n) bi fns fn_name args =
     (case exec_block n bi fns body (bind_params ps args) of
        Normal env' \<Rightarrow> Inr JNull
      | Returned v \<Rightarrow> Inr v
      | Raised e \<Rightarrow> Inl e)"
proof -
  have p: "py_len (or_empty (JList ps)) = Inr (length ps)" "py_iter (or_empty (JList ps)) = Inr ps"
    by (auto simp: or_empty_def py_len_def py_iter_def truthy_def)
  have b: "py_iter (or_empty (JList body)) = Inr body"
    by (auto simp: or_empty_def py_iter_def truthy_def)
  from assms p b show ?thesis
    by (simp add: call_user_simps call_user_body_def exec_block_def)
qed

definition no_builtins :: builtins where
  "no_builtins dp fn_name args = Inl (BuiltinFault ''not available'')"

definition sample_fns :: fn_table where
  "sample_fns =
     [(''first'',
       [(''name'', JStr ''first''), (''params'', JList [JStr ''x'']),
        (''body'', JList
           [JDict [(''let'', JDict [(''name'', JStr ''y''), (''expr'', JDict [(''var'', JStr ''x'')])])],
            JDict [(''return'', JDict [(''var'', JStr ''y'')])],
            JDict [(''assert'', JDict [(''expr'', JBool False)])]])]),
      (''silent'',
       [(''name'', JStr ''silent''), (''params'', JList [JStr ''x'']),
        (''body'', JList
           [JDict [(''let'', JDict [(''name'', JStr ''y''), (''expr'', JDict [(''var'', JStr ''x'')])])]])])]"

lemmas sandbox_eval = exec_block_def exec_stmt_simps eval_expr_simps call_user_simps dispatch_simps
  exec_stmt_body_def eval_expr_body_def eval_call_def call_user_body_def dispatch_body_def
  branch_of_def bind_params_def py_iter_def py_len_def or_empty_def truthy_def hashable_def
  dict_get_def

section \<open>Fall-through yields null, return carries its value (C9)\<close>

text \<open>
  C9. Take a call of a user function whose parameter list has the length of the argument
  list. If the execution of the body completes without a \<open>ReturnSignal\<close> and without any
  other exception, \<open>call_user\<close> returns \<open>null\<close>; and whenever the body holds no \<open>return\<close>
  statement at all, a call that returns a value returns \<open>null\<close>. If a \<open>ReturnSignal\<close>
  carrying \<open>v\<close> leaves the body, from whatever depth of nested \<open>if\<close> blocks, \<open>call_user\<close>
  returns \<open>v\<close>; and a statement \<open>return e\<close> in the body, reached after the statements
  before it have completed, makes \<open>call_user\<close> return the value of \<open>e\<close>, whatever follows
  it in the body: the rest is not executed. This holds at every stack depth and for every
  builtin table.
\<close>

theorem call_user_fall_through_and_return:
  assumes "map_of fns fn_name = Some fn"
    and "dict_get fn ''params'' = JList ps" and "list_all hashable ps" and "length ps = length args"
    and "dict_get fn ''body'' = JList body"
  shows "(\<forall>env'. exec_block n bi fns body (bind_params ps args) = Normal env'
            \<longrightarrow> call_user (Suc n) bi fns fn_name args = Inr JNull)
       \<and> (\<forall>v. \<not> returns_in_list body \<and> call_user (Suc n) bi fns fn_name args = Inr v
            \<longrightarrow> v = JNull)
       \<and> (\<forall>v. exec_block n bi fns body (bind_params ps args) = Returned v
            \<longrightarrow> call_user (Suc n) bi fns fn_name args = Inr v)
       \<and> (\<forall>pre e rest k env1 v.
             body = pre @ JDict [(''return'', e)] # rest \<and> n = Suc k
             \<and> exec_block n bi fns pre (bind_params ps args) = Normal env1
             \<and> eval_expr k bi fns e env1 = Inr v
            \<longrightarrow> call_user (Suc n) bi fns fn_name args = Inr v)"
proof -
  note cu = call_user_outcome [OF assms, of n bi]
  have 1: "\<forall>env'. exec_block n bi fns body (bind_params ps args) = Normal env'
            \<longrightarrow> call_user (Suc n) bi fns fn_name args = Inr JNull"
    by (simp add: cu)
  have 2: "\<forall>v. \<not> returns_in_list body \<and> call_user (Suc n) bi fns fn_name args = Inr v
            \<longrightarrow> v = JNull"
  proof (intro allI impI, elim conjE)
    fix v
    assume nr: "\<not> returns_in_list body" and r: "call_user (Suc n) bi fns fn_name args = Inr v"
    from nr have "\<And>w. exec_block n bi fns body (bind_params ps args) \<noteq> Returned w"
      unfolding exec_block_def by (rule no_return_no_signal)
    with r show "v = JNull"
      by (auto simp: cu split: outcome.splits)
  qed
  have 3: "\<forall>v. exec_block n bi fns body (bind_params ps args) = Returned v
            \<longrightarrow> call_user (Suc n) bi fns fn_name args = Inr v"
    by (simp add: cu)
  have 4: "\<forall>pre e rest k env1 v.
             body = pre @ JDict [(''return'', e)] # rest \<and> n = Suc k
             \<and> exec_block n bi fns pre (bind_params ps args) = Normal env1
             \<and> eval_expr k bi fns e env1 = Inr v
            \<longrightarrow> call_user (Suc n) bi fns fn_name args = Inr v"
  proof (intro allI impI, elim conjE)
    fix pre e rest k env1 v
    assume body: "body = pre @ JDict [(''return'', e)] # rest" and n: "n = Suc k"
      and pre: "exec_block n bi fns pre (bind_params ps args) = Normal env1"
      and e: "eval_expr k bi fns e env1 = Inr v"
    have "exec_block n bi fns body (bind_params ps args) = Returned v"
      using pre e unfolding body n exec_block_def
      by (simp add: run_block_append exec_return)
    then show "call_user (Suc n) bi fns fn_name args = Inr v"
      by (simp add: cu)
  qed
  from 1 2 3 4 show ?thesis by blast
qed

theorem call_user_fall_through_and_return_witness:
  "call_user (Suc (Suc (Suc 0))) no_builtins sample_fns ''silent'' [JInt 7] = Inr JNull
   \<and> call_user (Suc (Suc (Suc 0))) no_builtins sample_fns ''first'' [JInt 7] = Inr (JInt 7)"
proof -
  let ?let = "JDict [(''let'', JDict [(''name'', JStr ''y''), (''expr'', JDict [(''var'', JStr ''x'')])])]"
  let ?env1 = "[(JStr ''x'', JInt 7), (JStr ''y'', JInt 7)]"
  have pre: "exec_block (Suc (Suc 0)) no_builtins sample_fns [?let] (bind_params [JStr ''x''] [JInt 7])
      = Normal ?env1"
    by (simp add: sandbox_eval)
  have e: "eval_expr (Suc 0) no_builtins sample_fns (JDict [(''var'', JStr ''y'')]) ?env1 = Inr (JInt 7)"
    by (simp add: sandbox_eval)
  have s: "call_user (Suc (Suc (Suc 0))) no_builtins sample_fns ''silent'' [JInt 7] = Inr JNull"
    using call_user_fall_through_and_return
      [of sample_fns "''silent''" "the (map_of sample_fns ''silent'')" "[JStr ''x'']" "[JInt 7]"
        "[?let]" "Suc (Suc 0)" no_builtins]
      pre
    by (simp add: sample_fns_def dict_get_def hashable_def)
  have f: "call_user (Suc (Suc (Suc 0))) no_builtins sample_fns ''first'' [JInt 7] = Inr (JInt 7)"
    using call_user_fall_through_and_return
      [of sample_fns "''first''" "the (map_of sample_fns ''first'')" "[JStr ''x'']" "[JInt 7]"
        "[?let, JDict [(''return'', JDict [(''var'', JStr ''y'')])],
            JDict [(''assert'', JDict [(''expr'', JBool False)])]]" "Suc (Suc 0)" no_builtins]
      pre e
    by (simp add: sample_fns_def dict_get_def hashable_def) (metis append_Cons append_Nil)
  from s f show ?thesis by simp
qed

section \<open>The shrinker of the property runner (propcheck.py)\<close>

text \<open>
  \<open>shrink_int\<close> computes \<open>int(cur / 2)\<close> in floating point; \<open>trunc_half\<close> is that quotient
  rounded toward zero, which is what Python returns as long as \<open>cur\<close> is exactly
  representable as a float. A Python \<open>bool\<close> is an \<open>int\<close>, so \<open>True\<close> shrinks as \<open>1\<close>.
  \<open>minimize_failure\<close> is modelled for the default \<open>typevar_defaults\<close>, the empty mapping:
  \<open>_subst_typevars\<close> then turns every type variable into \<open>Int\<close>, and the recursive calls of
  \<open>shrink_value\<close> on element and field types are calls on types without variables.

  \<open>fails\<close> runs the function and the postcondition in the interpreter and answers \<open>True\<close>
  on any exception. The \<open>while changed\<close> loop may run forever, so it is a partial function:
  \<open>None\<close> is a loop that never ends.
\<close>

fun subst_typevars :: "ty \<Rightarrow> (string \<times> ty) list \<Rightarrow> ty"
  and subst_typevars_fields :: "(string \<times> ty) list \<Rightarrow> (string \<times> ty) list \<Rightarrow> (string \<times> ty) list"
where
  "subst_typevars (Var name) mapping =
     (case map_of mapping (hd (split_on (CHR ''#'') name)) of None \<Rightarrow> Prim ''Int'' | Some t \<Rightarrow> t)"
| "subst_typevars (ListT elem) mapping = ListT (subst_typevars elem mapping)"
| "subst_typevars (RecordT fs) mapping = RecordT (subst_typevars_fields fs mapping)"
| "subst_typevars AnyType mapping = AnyType"
| "subst_typevars (Prim name) mapping = Prim name"
| "subst_typevars_fields [] mapping = []"
| "subst_typevars_fields (f # fs) mapping =
     (fst f, subst_typevars (snd f) mapping) # subst_typevars_fields fs mapping"

definition trunc_half :: "int \<Rightarrow> int" where
  "trunc_half cur = (if cur < 0 then - ((- cur) div 2) else cur div 2)"

function halves :: "int \<Rightarrow> int list" where
  "halves cur =
     (if cur = 0 then []
      else (if trunc_half cur \<noteq> 0 then [trunc_half cur] else []) @ halves (trunc_half cur))"
  by pat_completeness auto
termination
  by (relation "measure (\<lambda>cur. nat \<bar>cur\<bar>)") (auto simp: trunc_half_def)

declare halves.simps [simp del]

definition shrink_int :: "int \<Rightarrow> int list" where
  "shrink_int n = (if n = 0 then [] else [0, 1, - 1] @ halves n)"

definition shrink_list :: "'a list \<Rightarrow> 'a list list" where
  "shrink_list xs =
     (if xs \<noteq> [] then [[]] else [])
     @ (if length xs \<ge> 2 then [take (length xs div 2) xs, drop (length xs div 2) xs] else [])
     @ map (\<lambda>i. take i xs @ drop (Suc i) xs) [0..<length xs]"

definition int_value :: "json \<Rightarrow> int option" where
  "int_value v = (case v of JInt i \<Rightarrow> Some i | JBool b \<Rightarrow> Some (if b then 1 else 0) | _ \<Rightarrow> None)"

definition shrink_prim :: "string \<Rightarrow> json \<Rightarrow> json list" where
  "shrink_prim name v =
     (if name = ''Int'' then (case int_value v of None \<Rightarrow> [] | Some i \<Rightarrow> map JInt (shrink_int i)) else [])
     @ (if name = ''Bool'' then (case v of JBool b \<Rightarrow> if b then [JBool False] else [] | _ \<Rightarrow> []) else [])
     @ (if name = ''String''
        then (case v of JStr s \<Rightarrow> if s \<noteq> [] then [JStr [], JStr (take (length s div 2) s)] else []
                      | _ \<Rightarrow> [])
        else [])"

fun shrink_typed :: "ty \<Rightarrow> json \<Rightarrow> json list"
  and shrink_fields :: "(string \<times> ty) list \<Rightarrow> (string \<times> json) list \<Rightarrow> json list"
where
  "shrink_typed AnyType v = (case int_value v of None \<Rightarrow> [] | Some i \<Rightarrow> map JInt (shrink_int i))"
| "shrink_typed (Prim name) v = shrink_prim name v"
| "shrink_typed (Var name) v = shrink_prim ''Int'' v"
| "shrink_typed (ListT elem) v =
     (case v of
        JList xs \<Rightarrow>
          map JList (shrink_list xs)
          @ concat (map (\<lambda>i. map (\<lambda>cand. JList (xs[i := cand])) (shrink_typed elem (xs ! i)))
                        [0..<length xs])
      | _ \<Rightarrow> [])"
| "shrink_typed (RecordT fs) v = (case v of JDict d \<Rightarrow> shrink_fields fs d | _ \<Rightarrow> [])"
| "shrink_fields [] d = []"
| "shrink_fields (f # fs) d =
     (case map_of d (fst f) of
        None \<Rightarrow> []
      | Some vk \<Rightarrow> map (\<lambda>cand. JDict (AList.update (fst f) cand d)) (shrink_typed (snd f) vk))
     @ shrink_fields fs d"

definition shrink_value :: "ty \<Rightarrow> json \<Rightarrow> json list" where
  "shrink_value t v = shrink_typed (subst_typevars t []) v"

definition property_fails ::
  "nat \<Rightarrow> builtins \<Rightarrow> (string \<times> json) list \<Rightarrow> string \<Rightarrow> string list \<Rightarrow> json \<Rightarrow> json list \<Rightarrow> bool" where
  "property_fails depth bi modl fn_name param_names post_expr candidate_args =
     (case run_module depth bi modl fn_name candidate_args of
        Inl e \<Rightarrow> True
      | Inr result \<Rightarrow>
         (case eval_expr depth bi (function_table modl) post_expr
                 (AList.update (JStr ''result'') result
                    (bind_params (map JStr param_names) candidate_args)) of
            Inl e \<Rightarrow> True
          | Inr ok \<Rightarrow> \<not> truthy ok))"

definition param_type :: "ty list \<Rightarrow> nat \<Rightarrow> ty" where
  "param_type param_types i = (if i < length param_types then param_types ! i else AnyType)"

definition shrink_arg ::
  "(json list \<Rightarrow> bool) \<Rightarrow> ty list \<Rightarrow> nat \<Rightarrow> json list \<times> bool \<Rightarrow> json list \<times> bool" where
  "shrink_arg fails param_types i st =
     (case find (\<lambda>cand. fails ((fst st)[i := cand]))
                (shrink_value (param_type param_types i) (fst st ! i)) of
        None \<Rightarrow> st
      | Some cand \<Rightarrow> ((fst st)[i := cand], True))"

definition shrink_pass :: "(json list \<Rightarrow> bool) \<Rightarrow> ty list \<Rightarrow> json list \<Rightarrow> json list \<times> bool" where
  "shrink_pass fails param_types cur =
     fold (shrink_arg fails param_types) [0..<length cur] (cur, False)"

partial_function (option) shrink_loop ::
  "(json list \<Rightarrow> json list \<times> bool) \<Rightarrow> json list \<Rightarrow> json list option" where
  "shrink_loop pass cur =
     (case pass cur of (cur', changed) \<Rightarrow> if changed then shrink_loop pass cur' else Some cur')"

definition minimize_failure ::
  "nat \<Rightarrow> builtins \<Rightarrow> (string \<times> json) list \<Rightarrow> string \<Rightarrow> string list \<Rightarrow> ty list \<Rightarrow> json list \<Rightarrow> json
     \<Rightarrow> json list option" where
  "minimize_failure depth bi modl fn_name param_names param_types args post_expr =
     shrink_loop (shrink_pass (property_fails depth bi modl fn_name param_names post_expr) param_types)
       args"

lemma shrink_loop_stuck:
  assumes "pass cur = (cur, True)"
  shows "shrink_loop pass cur = None"
proof (rule ccontr)
  assume "shrink_loop pass cur \<noteq> None"
  then obtain r where r: "shrink_loop pass cur = Some r" by auto
  have "p = pass \<longrightarrow> c \<noteq> cur" if eq: "shrink_loop p c = Some y" for p c y
  proof (rule shrink_loop.raw_induct [where P = "\<lambda>p c y. p = pass \<longrightarrow> c \<noteq> cur", OF _ eq])
    fix loop p c y
    assume IH: "\<And>p c y. loop p c = Some y \<Longrightarrow> p = pass \<longrightarrow> c \<noteq> cur"
      and step: "(case p c of (cur', changed) \<Rightarrow> if changed then loop p cur' else Some cur') = Some y"
    show "p = pass \<longrightarrow> c \<noteq> cur"
    proof (intro impI notI)
      assume "p = pass" and "c = cur"
      with step assms have "loop pass cur = Some y" by simp
      from IH [OF this] show False by simp
    qed
  qed
  with r show False by blast
qed

definition stubborn_module :: "(string \<times> json) list" where
  "stubborn_module =
     [(''module'', JStr ''m''), (''version'', JStr ''1''),
      (''functions'', JList [JDict
         [(''name'', JStr ''f''), (''params'', JList [JStr ''x'']), (''effects'', JList [JStr ''pure'']),
          (''body'', JList [JDict [(''if'', JDict
              [(''cond'', JDict [(''var'', JStr ''x'')]),
               (''then'', JList [JDict [(''return'', JInt 0)]]),
               (''else'', JList [JDict [(''return'', JInt 1)]])])]])]])]"

lemma stubborn_fails:
  "property_fails (Suc (Suc (Suc (Suc k)))) bi stubborn_module ''f'' [''x'']
      (JDict [(''var'', JStr ''result'')]) [JInt i] = (i \<noteq> 0)"
  by (simp add: property_fails_def run_module_def function_table_def stubborn_module_def
      user_function_index_def list_items_def qual_last_def split_on_def BUILTINS_def
      BUILTIN_EFFECTS_def sandbox_eval)

lemma shrink_int_1: "shrink_int 1 = [0, 1, - 1]"
  by (simp add: shrink_int_def halves.simps [of 1] halves.simps [of 0] trunc_half_def)

section \<open>The greedy shrinker need not terminate (C3)\<close>

text \<open>
  C3 fails. \<open>shrink_int(1)\<close> yields \<open>0, 1, -1\<close>: the value itself is among its own shrink
  candidates. Let \<open>f(x)\<close> return \<open>0\<close> if \<open>x\<close> is truthy and \<open>1\<close> otherwise, with the
  postcondition \<open>result\<close>, parameter type \<open>Int\<close> and failing arguments \<open>[1]\<close>. The candidate
  \<open>[0]\<close> passes, the candidate \<open>[1]\<close> fails and is adopted, \<open>changed\<close> is set, and the next
  round starts from the same arguments: \<open>minimize_failure\<close> never returns, at any stack
  depth that lets the function run and for every builtin table.
\<close>

theorem minimize_failure_diverges:
  "minimize_failure (Suc (Suc (Suc (Suc k)))) bi stubborn_module ''f'' [''x''] [Prim ''Int'']
     [JInt 1] (JDict [(''var'', JStr ''result'')]) = None"
  unfolding minimize_failure_def
  by (rule shrink_loop_stuck)
     (simp add: shrink_pass_def shrink_arg_def shrink_value_def param_type_def shrink_prim_def
       int_value_def shrink_int_1 stubborn_fails)


section \<open>Type inference of expressions (typecheck.py)\<close>

text \<open>
  \<open>_infer_expr\<close> appends to the list \<open>issues\<close> and, through \<open>_freshen\<close>, advances the counter
  of fresh type variables; both are threaded through as a state. The pointer \<open>ptr\<close> is the
  list of its segments, an index being written in decimal as \<open>join_pointer\<close> does. The
  typing of a call once its arguments are typed (\<open>_infer_special_call\<close>, the lookup of the
  signature, \<open>_freshen\<close>, the unification of the parameters, \<open>_apply\<close>) does not call
  \<open>_infer_expr\<close>; it is a parameter \<open>cr\<close> of the model. The fields of a record type are
  kept in the order of the object's keys.
\<close>

type_synonym tenv = "(string \<times> ty) list"
type_synonym tstate = "issue list \<times> nat"
type_synonym call_rule =
  "string \<Rightarrow> json list \<Rightarrow> ty list \<Rightarrow> tenv \<Rightarrow> string list \<Rightarrow> tstate \<Rightarrow> ty \<times> tstate"

definition add_issue :: "string list \<Rightarrow> string \<Rightarrow> tstate \<Rightarrow> tstate" where
  "add_issue ptr c st =
     (fst st @ [\<lparr> pointer = join_pointer ptr, code = c, severity = ''error'' \<rparr>], snd st)"

definition type_of_literal :: "json \<Rightarrow> ty" where
  "type_of_literal v =
     (case v of
        JNull \<Rightarrow> Prim ''Null''
      | JBool b \<Rightarrow> Prim ''Bool''
      | JInt i \<Rightarrow> Prim ''Int''
      | JFloat r \<Rightarrow> Prim ''Float''
      | JStr s \<Rightarrow> Prim ''String''
      | _ \<Rightarrow> AnyType)"

lemma size_dict_get_list:
  assumes "dict_get d k = JList arr"
  shows "size_list size arr < size_list (size_prod (\<lambda>x. 0) size) d"
proof -
  from assms have "map_of d k = Some (JList arr)"
    by (auto simp: dict_get_def split: option.splits)
  then have "(k, JList arr) \<in> set d" by (rule map_of_SomeD)
  from size_member [OF this] show ?thesis by simp
qed

lemma size_dict_get_dict:
  assumes "dict_get d k = JDict m"
  shows "size_list (size_prod (\<lambda>x. 0) size) m < size_list (size_prod (\<lambda>x. 0) size) d"
proof -
  from assms have "map_of d k = Some (JDict m)"
    by (auto simp: dict_get_def split: option.splits)
  then have "(k, JDict m) \<in> set d" by (rule map_of_SomeD)
  from size_member [OF this] show ?thesis by simp
qed

definition call_args :: "(string \<times> json) list \<Rightarrow> json" where
  "call_args c = (case map_of c ''args'' of None \<Rightarrow> JList [] | Some a \<Rightarrow> a)"

lemma size_call_args:
  assumes "dict_get d k = JDict c" and "call_args c = JList args"
  shows "size_list size args < size_list (size_prod (\<lambda>x. 0) size) d"
proof (cases "map_of c ''args''")
  case None
  with assms(2) have "args = []" by (simp add: call_args_def)
  with size_dict_get_dict [OF assms(1)] show ?thesis by simp
next
  case (Some a)
  with assms(2) have "dict_get c ''args'' = JList args" by (simp add: call_args_def dict_get_def)
  then have "size_list size args < size_list (size_prod (\<lambda>x. 0) size) c"
    by (rule size_dict_get_list)
  with size_dict_get_dict [OF assms(1)] show ?thesis by simp
qed

function infer_expr :: "call_rule \<Rightarrow> tenv \<Rightarrow> json \<Rightarrow> string list \<Rightarrow> tstate \<Rightarrow> ty \<times> tstate"
  and infer_items :: "call_rule \<Rightarrow> tenv \<Rightarrow> json list \<Rightarrow> nat \<Rightarrow> string list \<Rightarrow> tstate \<Rightarrow> ty list \<times> tstate"
  and infer_fields ::
    "call_rule \<Rightarrow> tenv \<Rightarrow> (string \<times> json) list \<Rightarrow> string list \<Rightarrow> tstate \<Rightarrow> (string \<times> ty) list \<times> tstate"
where
  "infer_expr cr env expr ptr st =
     (case expr of
        JDict d \<Rightarrow>
          if ''var'' \<in> set (map fst d)
          then (case dict_get d ''var'' of
                  JStr name \<Rightarrow>
                    (case map_of env name of
                       None \<Rightarrow> (AnyType, add_issue (ptr @ [''var'']) ''UndefinedVariable'' st)
                     | Some t \<Rightarrow> (t, st))
                | _ \<Rightarrow> (AnyType, add_issue (ptr @ [''var'']) ''TypeError'' st))
          else if ''list'' \<in> set (map fst d)
          then (case dict_get d ''list'' of
                  JList arr \<Rightarrow>
                    if arr = [] then (ListT AnyType, st)
                    else (case infer_items cr env arr 0 (ptr @ [''list'']) st of
                            (ts, st') \<Rightarrow> (ListT (foldl infer_join (hd ts) (tl ts)), st'))
                | _ \<Rightarrow> (AnyType, add_issue (ptr @ [''list'']) ''TypeError'' st))
          else if ''obj'' \<in> set (map fst d)
          then (case dict_get d ''obj'' of
                  JDict m \<Rightarrow>
                    (case infer_fields cr env m (ptr @ [''obj'']) st of
                       (fs, st') \<Rightarrow> (RecordT fs, st'))
                | _ \<Rightarrow> (AnyType, add_issue (ptr @ [''obj'']) ''TypeError'' st))
          else if ''call'' \<in> set (map fst d)
          then (case dict_get d ''call'' of
                  JDict c \<Rightarrow>
                    (case dict_get c ''fn'' of
                       JStr fn \<Rightarrow>
                         (case call_args c of
                            JList args \<Rightarrow>
                              (case infer_items cr env args 0 (ptr @ [''call'', ''args'']) st of
                                 (ts, st') \<Rightarrow> cr fn args ts env ptr st')
                          | _ \<Rightarrow> (AnyType, add_issue (ptr @ [''call'', ''args'']) ''TypeError'' st))
                     | _ \<Rightarrow> (AnyType, add_issue (ptr @ [''call'', ''fn'']) ''TypeError'' st))
                | _ \<Rightarrow> (AnyType, add_issue (ptr @ [''call'']) ''TypeError'' st))
          else (AnyType, add_issue ptr ''TypeError'' st)
      | JList xs \<Rightarrow> (AnyType, add_issue ptr ''TypeError'' st)
      | _ \<Rightarrow> (type_of_literal expr, st))"
| "infer_items cr env [] i ptr st = ([], st)"
| "infer_items cr env (a # as) i ptr st =
     (case infer_expr cr env a (ptr @ [str_of_nat i]) st of
        (t, st') \<Rightarrow>
          (case infer_items cr env as (Suc i) ptr st' of (ts, st'') \<Rightarrow> (t # ts, st'')))"
| "infer_fields cr env [] ptr st = ([], st)"
| "infer_fields cr env (m # ms) ptr st =
     (case infer_expr cr env (snd m) (ptr @ [fst m]) st of
        (t, st') \<Rightarrow>
          (case infer_fields cr env ms ptr st' of (fs, st'') \<Rightarrow> ((fst m, t) # fs, st'')))"
  by pat_completeness auto
termination
  by (relation "measure (\<lambda>x. case x of
        Inl (cr, env, expr, ptr, st) \<Rightarrow> size expr
      | Inr (Inl (cr, env, xs, i, ptr, st)) \<Rightarrow> size_list size xs
      | Inr (Inr (cr, env, ms, ptr, st)) \<Rightarrow> size_list (size_prod (\<lambda>x. 0) size) ms)")
     (auto intro!: less_SucI dest: size_dict_get_list size_dict_get_dict size_call_args)

declare infer_expr.simps [simp del]

lemma mixed_list_infers_join:
  "infer_expr cr env (JDict [(''list'', JList [JInt 1, JFloat 2])]) ptr st
     = (ListT (Prim ''Float''), st)"
  by (simp add: infer_expr.simps dict_get_def type_of_literal_def infer_join.simps doubleton_eq_iff)

section \<open>The empty list literal (C10)\<close>



end
